theory Spec2Isabelle
  imports Complex_Main "HOL-Library.Word" "HOL-Library.Signed_Division"
begin

unbundle bit_operations_syntax

section \<open>C++ arithmetic used by turtle.hpp\<close>

text \<open>
  The class \<open>Turtle\<close> of \<^verbatim>\<open>src/turtle.hpp\<close> is embedded function by function.
  \<^item> \<^verbatim>\<open>int\<close> and \<^verbatim>\<open>unsigned int\<close> are both \<open>32 word\<close>; the signedness lives in the
    operation, as in C++: \<open><\<close>, \<open>div\<close> are the unsigned ones, \<open><s\<close>, \<open>sdiv32\<close>,
    \<open>smod32\<close> the signed ones. Where an \<^verbatim>\<open>int\<close> meets an \<^verbatim>\<open>unsigned int\<close> in one
    expression the usual arithmetic conversions make the operation unsigned.
    Signed overflow (undefined in C++) wraps in the model.
  \<^item> \<^verbatim>\<open>unsigned char\<close> is \<open>8 word\<close>, \<^verbatim>\<open>unsigned long long\<close> is \<open>64 word\<close>.
  \<^item> \<^verbatim>\<open>double\<close> is \<open>real\<close>: rounding of floating-point arithmetic is not modelled.
  \<^item> \<^verbatim>\<open>exit(EXIT_FAILURE)\<close> and undefined behaviour that kills the process are values
    of type \<open>fatal\<close>; an operation returns \<open>fatal + turtle\<close>.
\<close>

definition sdiv32 :: "32 word \<Rightarrow> 32 word \<Rightarrow> 32 word" where
  "sdiv32 a b = word_of_int (sint a sdiv sint b)"

definition smod32 :: "32 word \<Rightarrow> 32 word \<Rightarrow> 32 word" where
  "smod32 a b = word_of_int (sint a smod sint b)"

text \<open>\<^verbatim>\<open>abs\<close> of \<^verbatim>\<open><cstdlib>\<close> on an \<^verbatim>\<open>int\<close>.\<close>

definition abs32 :: "32 word \<Rightarrow> 32 word" where
  "abs32 a = (if a <s 0 then - a else a)"

text \<open>Conversion \<^verbatim>\<open>(double) i\<close> of an \<^verbatim>\<open>int\<close>.\<close>

definition int_to_double :: "32 word \<Rightarrow> real" where
  "int_to_double i = real_of_int (sint i)"

text \<open>Conversion \<^verbatim>\<open>(int) d\<close> of a \<^verbatim>\<open>double\<close>: truncation towards zero.\<close>

definition double_to_int :: "real \<Rightarrow> 32 word" where
  "double_to_int d = word_of_int (if 0 \<le> d then \<lfloor>d\<rfloor> else \<lceil>d\<rceil>)"

text \<open>\<^verbatim>\<open>round\<close> of \<^verbatim>\<open><cmath>\<close>: to the nearest integer, halfway cases away from zero.\<close>

definition c_round :: "real \<Rightarrow> real" where
  "c_round d = (if 0 \<le> d then of_int \<lfloor>d + 1 / 2\<rfloor> else of_int \<lceil>d - 1 / 2\<rceil>)"

definition c_floor :: "real \<Rightarrow> real" where
  "c_floor d = of_int \<lfloor>d\<rfloor>"

definition c_ceil :: "real \<Rightarrow> real" where
  "c_ceil d = of_int \<lceil>d\<rceil>"

text \<open>Counting loops over machine integers do not wrap before they stop.\<close>

lemma unat_Suc_less: "(j :: 'a::len word) < w \<Longrightarrow> unat (j + 1) = Suc (unat j)"
proof -
  assume "j < w"
  then have "unat j < unat w" by (simp add: word_less_nat_alt)
  moreover have "unat w < 2 ^ LENGTH('a)" by (rule unsigned_less)
  ultimately have "unat j + 1 < 2 ^ LENGTH('a)" by linarith
  then show ?thesis by (simp add: unat_word_ariths)
qed

lemma sint_Suc_sless: "(x :: 32 word) <s b \<Longrightarrow> sint (x + 1) = sint x + 1"
proof -
  assume "x <s b"
  then have "sint x < sint b" by (simp add: word_sless_alt)
  moreover have "sint b < 2 ^ 31" using sint_lt [of b] by simp
  moreover have "- (2 ^ 31) \<le> sint x" using sint_ge [of x] by simp
  ultimately have "- (2 ^ 31) \<le> sint x + 1" "sint x + 1 < 2 ^ 31" by simp_all
  then show ?thesis by (simp add: sint_word_ariths signed_take_bit_int_eq_self)
qed

text \<open>Negation of an \<^verbatim>\<open>unsigned int\<close>: \<open>2^32\<close> minus the value.\<close>

lemma uint_pos: "(w :: 'a::len word) \<noteq> 0 \<Longrightarrow> 0 < uint w"
proof -
  assume "w \<noteq> 0"
  then have "uint w \<noteq> 0" by (simp add: unsigned_eq_0_iff)
  then show ?thesis using uint_ge_0 [of w] by linarith
qed

lemma uint_neg32: "w \<noteq> 0 \<Longrightarrow> uint (- w :: 32 word) = 4294967296 - uint w"
proof -
  assume "w \<noteq> 0"
  then have "0 < uint w" by (rule uint_pos)
  moreover have "uint w < 4294967296" using uint_lt2p [of w] by simp
  ultimately have "(- uint w) mod 4294967296 = 4294967296 - uint w"
    by (simp add: zmod_zminus1_eq_if)
  then show ?thesis by (simp add: uint_word_ariths)
qed

lemma sint_pred_nonneg: "(0 :: 32 word) \<le>s i \<Longrightarrow> sint (i - 1) = sint i - 1"
proof -
  assume "0 \<le>s i"
  then have "0 \<le> sint i" by (simp add: word_sle_eq)
  moreover have "sint i < 2 ^ 31" using sint_lt [of i] by simp
  ultimately have "- (2 ^ 31) \<le> sint i - 1" "sint i - 1 < 2 ^ 31" by simp_all
  then show ?thesis by (simp add: sint_word_ariths signed_take_bit_int_eq_self)
qed

lemma unat_step_up: "(a :: 'a::len word) \<noteq> b \<Longrightarrow> unat (b - (a + 1)) < unat (b - a)"
proof -
  assume "a \<noteq> b"
  then have "b - a \<noteq> 0" by simp
  then have "unat (b - a - 1) < unat (b - a)" by (rule measure_unat)
  moreover have "b - (a + 1) = b - a - 1" by simp
  ultimately show ?thesis by metis
qed

lemma unat_step_down: "(a :: 'a::len word) \<noteq> b \<Longrightarrow> unat (a - 1 - b) < unat (a - b)"
proof -
  assume "a \<noteq> b"
  then have "a - b \<noteq> 0" by simp
  then have "unat (a - b - 1) < unat (a - b)" by (rule measure_unat)
  moreover have "a - 1 - b = a - b - 1" by simp
  ultimately show ?thesis by metis
qed

text \<open>Decimal output of \<^verbatim>\<open>printf\<close>: \<^verbatim>\<open>%d\<close> and \<^verbatim>\<open>%05d\<close>.\<close>

fun digits10 :: "nat \<Rightarrow> string" where
  "digits10 n =
     (if n < 10 then [''0123456789'' ! n]
      else digits10 (n div 10) @ [''0123456789'' ! (n mod 10)])"

declare digits10.simps [simp del]

definition printf_d :: "int \<Rightarrow> string" where
  "printf_d v = (if v < 0 then ''-'' else '''') @ digits10 (nat \<bar>v\<bar>)"

definition printf_05d :: "int \<Rightarrow> string" where
  "printf_05d v =
     (let sign = (if v < 0 then ''-'' else ''''); ds = digits10 (nat \<bar>v\<bar>)
      in sign @ replicate (5 - length sign - length ds) (CHR ''0'') @ ds)"

text \<open>\<^verbatim>\<open>fwrite\<close> of an \<^verbatim>\<open>int\<close> and of a \<^verbatim>\<open>short\<close>: little-endian bytes.\<close>

definition le32 :: "32 word \<Rightarrow> 8 word list" where
  "le32 w = [ucast w, ucast (drop_bit 8 w), ucast (drop_bit 16 w), ucast (drop_bit 24 w)]"

definition le16 :: "16 word \<Rightarrow> 8 word list" where
  "le16 w = [ucast w, ucast (drop_bit 8 w)]"


section \<open>Data model\<close>

record rgb =
  red :: "8 word"
  green :: "8 word"
  blue :: "8 word"

record turtleState =
  xpos :: real
  ypos :: real
  heading :: real
  strokeColor :: rgb
  fillColor :: rgb
  pendown :: bool
  filled :: bool

datatype fatal =
    CannotAllocateImage           \<comment> \<open>"Can't allocate memory for turtle image."\<close>
  | CouldNotWriteFile string      \<comment> \<open>"Could not write to file: %s"\<close>
  | CannotAllocateLine            \<comment> \<open>"Can't allocate memory for BMP file."\<close>
  | TooManyIntercepts             \<comment> \<open>"Too many intercepts in fill algorithm!"\<close>
  | ArithmeticFault               \<comment> \<open>integer \<^verbatim>\<open>%\<close> by zero\<close>
  | BadIndex                      \<comment> \<open>array access outside the array\<close>
  | IndeterminateValue            \<comment> \<open>read of an array element that was never written\<close>
  | NoReturnValue                 \<comment> \<open>end of a non-void function reached without \<^verbatim>\<open>return\<close>\<close>

text \<open>
  The fields of class \<open>Turtle\<close>. The arrays \<^verbatim>\<open>mainTurtlePolyX\<close>, \<^verbatim>\<open>mainTurtlePolyY\<close> and
  their counter \<^verbatim>\<open>mainTurtlePolyVertexCount\<close> are the list \<open>mainTurtlePoly\<close> of the
  vertices recorded so far (the counter is its length; entries past the counter are
  never read). \<open>stderr_out\<close> holds the lines printed to \<^verbatim>\<open>stderr\<close> and \<open>written\<close> the
  files written, oldest first; \<open>fopen_ok\<close> and \<open>malloc_ok\<close> are the environment's answers
  to \<^verbatim>\<open>fopen\<close> and \<^verbatim>\<open>malloc\<close>.
\<close>

record turtle =
  mainTurtle :: turtleState
  backupTurtle :: turtleState
  mainTurtleImage :: "rgb list"
  mainFieldWidth :: "32 word"
  mainFieldHeight :: "32 word"
  mainFieldSaveFrames :: bool
  mainFieldFrameCount :: "32 word"
  mainFieldFrameInterval :: "32 word"
  mainFieldPixelCount :: "32 word"
  mainTurtlePoly :: "(real \<times> real) list"
  numPixelsOutOfBounds :: "64 word"
  stderr_out :: "string list"
  written :: "(string \<times> 8 word list) list"
  fopen_ok :: "string \<Rightarrow> bool"
  malloc_ok :: "nat \<Rightarrow> bool"

definition MAX_POLYGON_VERTICES :: nat where
  "MAX_POLYGON_VERTICES = 128"

definition white :: rgb where
  "white = \<lparr>red = 255, green = 255, blue = 255\<rparr>"


section \<open>Turtle state operations\<close>

definition reset :: "turtle \<Rightarrow> turtle" where
  "reset s =
     s\<lparr>mainTurtle :=
         \<lparr>xpos = 0, ypos = 0, heading = 0,
          strokeColor = \<lparr>red = 0, green = 0, blue = 0\<rparr>,
          fillColor = \<lparr>red = 0, green = 255, blue = 0\<rparr>,
          pendown = True, filled = False\<rparr>,
       mainTurtlePoly := []\<rparr>"

definition backup :: "turtle \<Rightarrow> turtle" where
  "backup s = s\<lparr>backupTurtle := mainTurtle s\<rparr>"

definition restore :: "turtle \<Rightarrow> turtle" where
  "restore s = s\<lparr>mainTurtle := backupTurtle s\<rparr>"

definition turnLeft :: "real \<Rightarrow> turtle \<Rightarrow> turtle" where
  "turnLeft angle s =
     (let h = heading (mainTurtle s) + angle;
          h' = (if h < 0 then h + 360 else if h \<ge> 360 then h - 360 else h)
      in s\<lparr>mainTurtle := (mainTurtle s)\<lparr>heading := h'\<rparr>\<rparr>)"

definition turnRight :: "real \<Rightarrow> turtle \<Rightarrow> turtle" where
  "turnRight angle s = turnLeft (- angle) s"

definition penUp :: "turtle \<Rightarrow> turtle" where
  "penUp s = s\<lparr>mainTurtle := (mainTurtle s)\<lparr>pendown := False\<rparr>\<rparr>"

definition penDown :: "turtle \<Rightarrow> turtle" where
  "penDown s = s\<lparr>mainTurtle := (mainTurtle s)\<lparr>pendown := True\<rparr>\<rparr>"

definition beginFill :: "turtle \<Rightarrow> turtle" where
  "beginFill s = s\<lparr>mainTurtle := (mainTurtle s)\<lparr>filled := True\<rparr>, mainTurtlePoly := []\<rparr>"

definition setHeading :: "real \<Rightarrow> turtle \<Rightarrow> turtle" where
  "setHeading angle s = s\<lparr>mainTurtle := (mainTurtle s)\<lparr>heading := angle\<rparr>\<rparr>"

text \<open>The \<^verbatim>\<open>int\<close> arguments are stored into \<^verbatim>\<open>unsigned char\<close> fields: the low 8 bits.\<close>

definition setPenColor :: "32 word \<Rightarrow> 32 word \<Rightarrow> 32 word \<Rightarrow> turtle \<Rightarrow> turtle" where
  "setPenColor r g b s =
     s\<lparr>mainTurtle := (mainTurtle s)\<lparr>strokeColor := \<lparr>red = ucast r, green = ucast g, blue = ucast b\<rparr>\<rparr>\<rparr>"

definition setFillColor :: "32 word \<Rightarrow> 32 word \<Rightarrow> 32 word \<Rightarrow> turtle \<Rightarrow> turtle" where
  "setFillColor r g b s =
     s\<lparr>mainTurtle := (mainTurtle s)\<lparr>fillColor := \<lparr>red = ucast r, green = ucast g, blue = ucast b\<rparr>\<rparr>\<rparr>"

definition getX :: "turtle \<Rightarrow> real" where
  "getX s = xpos (mainTurtle s)"

definition getY :: "turtle \<Rightarrow> real" where
  "getY s = ypos (mainTurtle s)"


section \<open>Pixel buffer\<close>

text \<open>
  The flattened index is computed in \<^verbatim>\<open>unsigned int\<close> and stored in an \<^verbatim>\<open>int\<close>;
  \<^verbatim>\<open>idx >= 0\<close> is a signed test, \<^verbatim>\<open>idx < mainFieldWidth * mainFieldHeight\<close> an unsigned one.
\<close>

definition pixel_index :: "turtle \<Rightarrow> 32 word \<Rightarrow> 32 word \<Rightarrow> 32 word" where
  "pixel_index s x y =
     mainFieldWidth s * (y + mainFieldHeight s div 2) + (x + mainFieldWidth s div 2)"

definition fillPixel :: "32 word \<Rightarrow> 32 word \<Rightarrow> turtle \<Rightarrow> turtle" where
  "fillPixel x y s =
     (let idx = pixel_index s x y
      in if 0 \<le>s idx \<and> idx < mainFieldWidth s * mainFieldHeight s
         then s\<lparr>mainTurtleImage := (mainTurtleImage s)[unat idx := fillColor (mainTurtle s)]\<rparr>
         else s)"


section \<open>Bitmap encoder\<close>

definition bmp_header :: "32 word \<Rightarrow> 32 word \<Rightarrow> 32 word \<Rightarrow> 8 word list" where
  "bmp_header width height bytesPerLine =
     [0x42, 0x4D] @ le32 (54 + bytesPerLine * height) @ le32 0 @ le32 54 @
     le32 40 @ le32 width @ le32 height @ le16 1 @ le16 24 @ le32 0 @
     le32 (bytesPerLine * height) @ le32 0 @ le32 0 @ le32 0 @ le32 0"

text \<open>Byte \<open>k\<close> of the pixel array seen as \<^verbatim>\<open>char *\<close>: red, green, blue of pixel \<open>k div 3\<close>.\<close>

definition image_byte :: "rgb list \<Rightarrow> nat \<Rightarrow> 8 word" where
  "image_byte img k = [red (img ! (k div 3)), green (img ! (k div 3)), blue (img ! (k div 3))] ! (k mod 3)"

text \<open>
  The inner loop of \<^verbatim>\<open>saveBMP\<close> over the columns \<open>j\<close> of row \<open>i\<close>. A read outside the pixel
  array or a write outside \<^verbatim>\<open>line\<close> is \<open>BadIndex\<close>.
\<close>

function bmp_line :: "turtle \<Rightarrow> 32 word \<Rightarrow> 32 word \<Rightarrow> 8 word list \<Rightarrow> fatal + 8 word list" where
  "bmp_line s i j line =
     (if j < mainFieldWidth s then
        (let ipos = 3 * (mainFieldWidth s * i + j); k = 3 * j
         in if 0 \<le>s ipos \<and> unat ipos + 2 < 3 * length (mainTurtleImage s) \<and>
               0 \<le>s k \<and> unat k + 2 < length line
            then bmp_line s i (j + 1)
                   (line[unat k := image_byte (mainTurtleImage s) (unat ipos + 2),
                         unat k + 1 := image_byte (mainTurtleImage s) (unat ipos + 1),
                         unat k + 2 := image_byte (mainTurtleImage s) (unat ipos)])
            else Inl BadIndex)
      else Inr line)"
  by pat_completeness auto
termination
proof (relation "measure (\<lambda>(s, i, j, line). unat (mainFieldWidth s) - unat j)")
  show "wf (measure (\<lambda>(s, i, j, line). unat (mainFieldWidth s) - unat j))"
    by simp
next
  fix s :: turtle and i j :: "32 word" and line :: "8 word list" and ipos k :: "32 word"
  assume lt: "j < mainFieldWidth s"
  then have "unat j < unat (mainFieldWidth s)"
    by (simp add: word_less_nat_alt)
  moreover from lt have "unat (j + 1) = Suc (unat j)"
    by (rule unat_Suc_less)
  ultimately show "((s, i, j + 1, line[unat k := image_byte (mainTurtleImage s) (unat ipos + 2),
                         unat k + 1 := image_byte (mainTurtleImage s) (unat ipos + 1),
                         unat k + 2 := image_byte (mainTurtleImage s) (unat ipos)]),
                    (s, i, j, line)) \<in> measure (\<lambda>(s, i, j, line). unat (mainFieldWidth s) - unat j)"
    by simp
qed

declare bmp_line.simps [simp del]

text \<open>The outer loop over the rows: each finished \<^verbatim>\<open>line\<close> is written to the file.\<close>

function bmp_rows :: "turtle \<Rightarrow> 32 word \<Rightarrow> 8 word list \<Rightarrow> fatal + 8 word list" where
  "bmp_rows s i line =
     (if i < mainFieldHeight s then
        (case bmp_line s i 0 line of
           Inl e \<Rightarrow> Inl e
         | Inr line' \<Rightarrow>
             (case bmp_rows s (i + 1) line' of
                Inl e \<Rightarrow> Inl e
              | Inr rest \<Rightarrow> Inr (line' @ rest)))
      else Inr [])"
  by pat_completeness auto
termination
  by (relation "measure (\<lambda>(s, i, line). unat (mainFieldHeight s) - unat i)")
     (auto simp: unat_Suc_less word_less_nat_alt)

declare bmp_rows.simps [simp del]

definition saveBMP :: "string \<Rightarrow> turtle \<Rightarrow> fatal + turtle" where
  "saveBMP filename s =
     (let width = mainFieldWidth s; height = mainFieldHeight s;
          bytesPerLine = (3 * (width + 1) div 4) * 4
      in if \<not> fopen_ok s filename then Inl (CouldNotWriteFile filename)
         else if \<not> malloc_ok s (unat bytesPerLine) then Inl CannotAllocateLine
         else (case bmp_rows s 0 (replicate (unat bytesPerLine) 0) of
                 Inl e \<Rightarrow> Inl e
               | Inr rows \<Rightarrow>
                   Inr (s\<lparr>written := written s @
                          [(filename, bmp_header width height bytesPerLine @ rows)]\<rparr>)))"


section \<open>Video frames\<close>

definition beginVideo :: "32 word \<Rightarrow> turtle \<Rightarrow> turtle" where
  "beginVideo pixelsPerFrame s =
     s\<lparr>mainFieldSaveFrames := True, mainFieldFrameCount := 0,
       mainFieldFrameInterval := pixelsPerFrame, mainFieldPixelCount := 0\<rparr>"

definition saveFrame :: "turtle \<Rightarrow> fatal + turtle" where
  "saveFrame s =
     (let n = mainFieldFrameCount s + 1
      in saveBMP (''frame'' @ printf_05d (sint n) @ ''.bmp'') (s\<lparr>mainFieldFrameCount := n\<rparr>))"

definition endVideo :: "turtle \<Rightarrow> turtle" where
  "endVideo s = s\<lparr>mainFieldSaveFrames := False\<rparr>"


section \<open>Stroke pixels and lines\<close>

text \<open>
  \<^verbatim>\<open>mainFieldWidth\<close> and \<^verbatim>\<open>mainFieldHeight\<close> are \<^verbatim>\<open>unsigned int\<close>, so \<^verbatim>\<open>-mainFieldWidth / 2\<close>
  is the unsigned negation divided by two, and each of the four comparisons converts
  the \<^verbatim>\<open>int\<close> coordinate to \<^verbatim>\<open>unsigned int\<close>.
\<close>

definition out_of_bounds :: "turtle \<Rightarrow> 32 word \<Rightarrow> 32 word \<Rightarrow> bool" where
  "out_of_bounds s x y \<longleftrightarrow>
     x < (- mainFieldWidth s) div 2 \<or> x > mainFieldWidth s div 2 \<or>
     y < (- mainFieldHeight s) div 2 \<or> y > mainFieldHeight s div 2"

definition drawPixel :: "32 word \<Rightarrow> 32 word \<Rightarrow> turtle \<Rightarrow> fatal + turtle" where
  "drawPixel x y s =
     (if out_of_bounds s x y then
        (let n = numPixelsOutOfBounds s + 1;
             s1 = s\<lparr>numPixelsOutOfBounds := n\<rparr>
         in Inr (if n < 100
                 then s1\<lparr>stderr_out := stderr_out s1 @
                        [''Pixel out of bounds: ('' @ printf_d (sint x) @ '','' @
                         printf_d (sint y) @ '')'']\<rparr>
                 else s1))
      else
        (let idx = pixel_index s x y;
             s1 = (if 0 \<le>s idx \<and> idx < mainFieldWidth s * mainFieldHeight s
                   then s\<lparr>mainTurtleImage :=
                           (mainTurtleImage s)[unat idx := strokeColor (mainTurtle s)]\<rparr>
                   else s)
         in if mainFieldSaveFrames s1 then
              (let c = mainFieldPixelCount s1;
                   s2 = s1\<lparr>mainFieldPixelCount := c + 1\<rparr>
               in if mainFieldFrameInterval s2 = 0 then Inl ArithmeticFault
                  else if smod32 c (mainFieldFrameInterval s2) = 0 then saveFrame s2
                  else Inr s2)
            else Inr s1))"

definition dot :: "turtle \<Rightarrow> fatal + turtle" where
  "dot s =
     drawPixel (double_to_int (c_round (xpos (mainTurtle s))))
               (double_to_int (c_round (ypos (mainTurtle s)))) s"

text \<open>
  The two loops of \<^verbatim>\<open>drawLine\<close>. \<open>right\<close> is \<^verbatim>\<open>x0 < x1\<close> and \<open>up\<close> is \<^verbatim>\<open>y0 < y1\<close>,
  from which the source computes the offsets \<^verbatim>\<open>offX\<close> and \<^verbatim>\<open>offY\<close> as 1 or -1.
\<close>

definition offset :: "bool \<Rightarrow> 32 word" where
  "offset forwards = (if forwards then 1 else - 1)"

function drawLine_horizontal ::
  "32 word \<Rightarrow> 32 word \<Rightarrow> bool \<Rightarrow> bool \<Rightarrow> 32 word \<Rightarrow> 32 word \<Rightarrow> 32 word \<Rightarrow> 32 word \<Rightarrow> turtle
   \<Rightarrow> fatal + turtle" where
  "drawLine_horizontal absX absY right up x1 x y err s =
     (if x \<noteq> x1 then
        (let err1 = err - absY;
             y' = (if err1 <s 0 then y + offset up else y);
             err' = (if err1 <s 0 then err1 + absX else err1);
             x' = x + offset right
         in case drawPixel x' y' s of
              Inl e \<Rightarrow> Inl e
            | Inr s' \<Rightarrow> drawLine_horizontal absX absY right up x1 x' y' err' s')
      else Inr s)"
  by pat_completeness auto
termination
proof (relation "measure (\<lambda>(absX, absY, right, up, x1, x, y, err, s).
                   if right then unat (x1 - x) else unat (x - x1))", goal_cases)
  case 1
  show ?case by simp
next
  case (2 absX absY right up x1 x y err s err1 y' err' x' s')
  then show ?case
    by (simp add: offset_def unat_step_up unat_step_down)
qed

declare drawLine_horizontal.simps [simp del]

function drawLine_vertical ::
  "32 word \<Rightarrow> 32 word \<Rightarrow> bool \<Rightarrow> bool \<Rightarrow> 32 word \<Rightarrow> 32 word \<Rightarrow> 32 word \<Rightarrow> 32 word \<Rightarrow> turtle
   \<Rightarrow> fatal + turtle" where
  "drawLine_vertical absX absY right up y1 x y err s =
     (if y \<noteq> y1 then
        (let err1 = err - absX;
             x' = (if err1 <s 0 then x + offset right else x);
             err' = (if err1 <s 0 then err1 + absY else err1);
             y' = y + offset up
         in case drawPixel x' y' s of
              Inl e \<Rightarrow> Inl e
            | Inr s' \<Rightarrow> drawLine_vertical absX absY right up y1 x' y' err' s')
      else Inr s)"
  by pat_completeness auto
termination
proof (relation "measure (\<lambda>(absX, absY, right, up, y1, x, y, err, s).
                   if up then unat (y1 - y) else unat (y - y1))", goal_cases)
  case 1
  show ?case by simp
next
  case (2 absX absY right up y1 x y err s err1 x' err' y' s')
  then show ?case
    by (simp add: offset_def unat_step_up unat_step_down)
qed

declare drawLine_vertical.simps [simp del]

definition drawLine :: "32 word \<Rightarrow> 32 word \<Rightarrow> 32 word \<Rightarrow> 32 word \<Rightarrow> turtle \<Rightarrow> fatal + turtle" where
  "drawLine x0 y0 x1 y1 s =
     (let absX = abs32 (x1 - x0); absY = abs32 (y1 - y0);
          right = x0 <s x1; up = y0 <s y1
      in case drawPixel x0 y0 s of
           Inl e \<Rightarrow> Inl e
         | Inr s' \<Rightarrow>
             if absY <s absX
             then drawLine_horizontal absX absY right up x1 x0 y0 (sdiv32 absX 2) s'
             else drawLine_vertical absX absY right up y1 x0 y0 (sdiv32 absY 2) s')"


section \<open>Moving the turtle\<close>

text \<open>Sequencing of two steps of which the first may end the process.\<close>

definition seq :: "fatal + 'a \<Rightarrow> ('a \<Rightarrow> fatal + 'b) \<Rightarrow> fatal + 'b" where
  "seq m f = (case m of Inl e \<Rightarrow> Inl e | Inr a \<Rightarrow> f a)"

definition goTo :: "real \<Rightarrow> real \<Rightarrow> turtle \<Rightarrow> fatal + turtle" where
  "goTo x y s =
     seq (if pendown (mainTurtle s)
          then drawLine (double_to_int (c_round (xpos (mainTurtle s))))
                        (double_to_int (c_round (ypos (mainTurtle s))))
                        (double_to_int (c_round x)) (double_to_int (c_round y)) s
          else Inr s)
       (\<lambda>s1.
          let s2 = s1\<lparr>mainTurtle := (mainTurtle s1)\<lparr>xpos := x, ypos := y\<rparr>\<rparr>
          in Inr (if filled (mainTurtle s2) \<and> pendown (mainTurtle s2) \<and>
                     length (mainTurtlePoly s2) < MAX_POLYGON_VERTICES
                  then s2\<lparr>mainTurtlePoly := mainTurtlePoly s2 @ [(x, y)]\<rparr>
                  else s2))"

definition goTo_int :: "32 word \<Rightarrow> 32 word \<Rightarrow> turtle \<Rightarrow> fatal + turtle" where
  "goTo_int x y s = goTo (int_to_double x) (int_to_double y) s"

definition forward :: "32 word \<Rightarrow> turtle \<Rightarrow> fatal + turtle" where
  "forward pixels s =
     (let radians = heading (mainTurtle s) * pi / 180;
          dx = cos radians * int_to_double pixels;
          dy = sin radians * int_to_double pixels
      in goTo (xpos (mainTurtle s) + dx) (ypos (mainTurtle s) + dy) s)"

definition backward :: "32 word \<Rightarrow> turtle \<Rightarrow> fatal + turtle" where
  "backward pixels s = forward (- pixels) s"

definition strafeLeft :: "32 word \<Rightarrow> turtle \<Rightarrow> fatal + turtle" where
  "strafeLeft pixels s = seq (forward pixels (turnLeft 90 s)) (\<lambda>s'. Inr (turnRight 90 s'))"

definition strafeRight :: "32 word \<Rightarrow> turtle \<Rightarrow> fatal + turtle" where
  "strafeRight pixels s = seq (forward pixels (turnRight 90 s)) (\<lambda>s'. Inr (turnLeft 90 s'))"


section \<open>Circle fill\<close>

lemma fillPixel_dims [simp]:
  "mainFieldHeight (fillPixel x y s) = mainFieldHeight s"
  "mainFieldWidth (fillPixel x y s) = mainFieldWidth s"
  by (simp_all add: fillPixel_def Let_def)

function fillCircle_column ::
  "32 word \<Rightarrow> 32 word \<Rightarrow> 32 word \<Rightarrow> 32 word \<Rightarrow> 32 word \<Rightarrow> 32 word \<Rightarrow> turtle \<Rightarrow> turtle" where
  "fillCircle_column x0 y0 radius rad_sq x y s =
     (if y <s y0 + radius then
        (let dx = x - x0; dy = y - y0; dsq = (dx * dx) + (dy * dy)
         in fillCircle_column x0 y0 radius rad_sq x (y + 1)
              (if dsq <s rad_sq then fillPixel x y s else s))
      else s)"
  by pat_completeness auto
termination
  by (relation "measure (\<lambda>(x0, y0, radius, rad_sq, x, y, s). nat (sint (y0 + radius) - sint y))")
     (auto simp: sint_Suc_sless word_sless_alt)

declare fillCircle_column.simps [simp del]

function fillCircle_rows ::
  "32 word \<Rightarrow> 32 word \<Rightarrow> 32 word \<Rightarrow> 32 word \<Rightarrow> 32 word \<Rightarrow> turtle \<Rightarrow> turtle" where
  "fillCircle_rows x0 y0 radius rad_sq x s =
     (if x <s x0 + radius then
        fillCircle_rows x0 y0 radius rad_sq (x + 1)
          (fillCircle_column x0 y0 radius rad_sq x (y0 - radius) s)
      else s)"
  by pat_completeness auto
termination
  by (relation "measure (\<lambda>(x0, y0, radius, rad_sq, x, s). nat (sint (x0 + radius) - sint x))")
     (auto simp: sint_Suc_sless word_sless_alt)

declare fillCircle_rows.simps [simp del]

definition fillCircle :: "32 word \<Rightarrow> 32 word \<Rightarrow> 32 word \<Rightarrow> turtle \<Rightarrow> turtle" where
  "fillCircle x0 y0 radius s = fillCircle_rows x0 y0 radius (radius * radius) (x0 - radius) s"

text \<open>\<^verbatim>\<open>fillCircle(int radius)\<close>: the \<^verbatim>\<open>double\<close> position is converted to \<^verbatim>\<open>int\<close>.\<close>

definition fillCircle_here :: "32 word \<Rightarrow> turtle \<Rightarrow> turtle" where
  "fillCircle_here radius s =
     fillCircle (double_to_int (xpos (mainTurtle s))) (double_to_int (ypos (mainTurtle s))) radius s"


section \<open>Polygon fill\<close>

text \<open>
  One row \<open>y\<close> of \<^verbatim>\<open>endFill\<close>. \<open>vi\<close> is vertex \<open>i\<close> and \<open>vj\<close> vertex \<open>j\<close>, the one before it
  (the last vertex for \<open>i = 0\<close>). \<open>nodeX\<close> is the filled part of the array \<^verbatim>\<open>nodeX\<close>,
  its length the counter \<^verbatim>\<open>nodes\<close>.
\<close>

definition crosses :: "real \<Rightarrow> real \<times> real \<Rightarrow> real \<times> real \<Rightarrow> bool" where
  "crosses y vi vj \<longleftrightarrow> (snd vi < y \<and> snd vj \<ge> y) \<or> (snd vj < y \<and> snd vi \<ge> y)"

definition intercept :: "real \<Rightarrow> real \<times> real \<Rightarrow> real \<times> real \<Rightarrow> real" where
  "intercept y vi vj = fst vi + (y - snd vi) / (snd vj - snd vi) * (fst vj - fst vi)"

fun collect_nodes :: "real \<Rightarrow> real \<times> real \<Rightarrow> (real \<times> real) list \<Rightarrow> real list \<Rightarrow> fatal + real list" where
  "collect_nodes y vj [] nodeX = Inr nodeX"
| "collect_nodes y vj (vi # rest) nodeX =
     (let nodeX' = (if crosses y vi vj then nodeX @ [intercept y vi vj] else nodeX)
      in if length nodeX' \<ge> MAX_POLYGON_VERTICES then Inl TooManyIntercepts
         else collect_nodes y vi rest nodeX')"

definition row_nodes :: "(real \<times> real) list \<Rightarrow> real \<Rightarrow> fatal + real list" where
  "row_nodes poly y = collect_nodes y (last poly) poly []"

text \<open>The insertion sort: \<open>temp\<close> moves left past every larger entry of the sorted prefix.\<close>

function insert_node :: "real \<Rightarrow> real list \<Rightarrow> real list" where
  "insert_node temp prefix =
     (if prefix \<noteq> [] \<and> temp < last prefix
      then insert_node temp (butlast prefix) @ [last prefix]
      else prefix @ [temp])"
  by pat_completeness auto
termination
  by (relation "measure (\<lambda>(temp, prefix). length prefix)") (auto simp: less_Suc_eq_0_disj)

declare insert_node.simps [simp del]

fun sort_nodes :: "real list \<Rightarrow> real list \<Rightarrow> real list" where
  "sort_nodes prefix [] = prefix"
| "sort_nodes prefix (temp # rest) = sort_nodes (insert_node temp prefix) rest"

function fill_span :: "32 word \<Rightarrow> 32 word \<Rightarrow> 32 word \<Rightarrow> turtle \<Rightarrow> turtle" where
  "fill_span x xend y s = (if x <s xend then fill_span (x + 1) xend y (fillPixel x y s) else s)"
  by pat_completeness auto
termination
  by (relation "measure (\<lambda>(x, xend, y, s). nat (sint xend - sint x))")
     (auto simp: sint_Suc_sless word_sless_alt)

declare fill_span.simps [simp del]

text \<open>
  The node pairs of one row. With an odd number of nodes the source reads
  \<^verbatim>\<open>nodeX[i + 1]\<close> past the last node collected for this row.
\<close>

fun fill_pairs :: "real list \<Rightarrow> 32 word \<Rightarrow> turtle \<Rightarrow> fatal + turtle" where
  "fill_pairs [] y s = Inr s"
| "fill_pairs [a] y s = Inl IndeterminateValue"
| "fill_pairs (a # b # rest) y s =
     fill_pairs rest y
       (fill_span (double_to_int (c_floor a) + 1) (double_to_int (c_ceil b)) y s)"

lemma fill_span_height [simp]: "mainFieldHeight (fill_span x xend y s) = mainFieldHeight s"
  by (induction x xend y s rule: fill_span.induct) (subst fill_span.simps, simp)

lemma fill_pairs_height: "fill_pairs nodes y s = Inr s' \<Longrightarrow> mainFieldHeight s' = mainFieldHeight s"
  by (induction nodes y s rule: fill_pairs.induct) simp_all

text \<open>
  The loop over the rows: \<^verbatim>\<open>y\<close> is an \<^verbatim>\<open>int\<close> and \<^verbatim>\<open>mainFieldHeight / 2\<close> an
  \<^verbatim>\<open>unsigned int\<close>, so \<^verbatim>\<open>y < mainFieldHeight / 2\<close> is an unsigned comparison.
\<close>

function fill_rows :: "32 word \<Rightarrow> turtle \<Rightarrow> fatal + turtle" where
  "fill_rows y s =
     (if y < mainFieldHeight s div 2 then
        (case row_nodes (mainTurtlePoly s) (int_to_double y) of
           Inl e \<Rightarrow> Inl e
         | Inr nodeX \<Rightarrow>
             (case fill_pairs (sort_nodes [] nodeX) y s of
                Inl e \<Rightarrow> Inl e
              | Inr s' \<Rightarrow> fill_rows (y + 1) s'))
      else Inr s)"
  by pat_completeness auto
termination
  by (relation "measure (\<lambda>(y, s). unat (mainFieldHeight s div 2) - unat y)")
     (auto simp: unat_Suc_less word_less_nat_alt dest!: fill_pairs_height)

declare fill_rows.simps [simp del]

text \<open>The polygon is stroked again, edge by edge.\<close>

function redraw_polygon :: "(real \<times> real) list \<Rightarrow> nat \<Rightarrow> turtle \<Rightarrow> fatal + turtle" where
  "redraw_polygon poly i s =
     (if i < length poly then
        (let vi = poly ! i; vn = poly ! ((i + 1) mod length poly)
         in case drawLine (double_to_int (c_round (fst vi))) (double_to_int (c_round (snd vi)))
                          (double_to_int (c_round (fst vn))) (double_to_int (c_round (snd vn))) s of
              Inl e \<Rightarrow> Inl e
            | Inr s' \<Rightarrow> redraw_polygon poly (i + 1) s')
      else Inr s)"
  by pat_completeness auto
termination
  by (relation "measure (\<lambda>(poly, i, s). length poly - i)") auto

declare redraw_polygon.simps [simp del]

definition endFill :: "turtle \<Rightarrow> fatal + turtle" where
  "endFill s =
     seq (fill_rows (- (mainFieldHeight s div 2)) s)
       (\<lambda>s1. let s2 = s1\<lparr>mainTurtle := (mainTurtle s1)\<lparr>filled := False\<rparr>\<rparr>
             in redraw_polygon (mainTurtlePoly s2) 0 s2)"


section \<open>The turtle icon\<close>

text \<open>
  The colour components are \<^verbatim>\<open>unsigned char\<close>, promoted to the \<^verbatim>\<open>int\<close> parameters of
  \<^verbatim>\<open>setFillColor\<close>.
\<close>

definition setFillColor_rgb :: "rgb \<Rightarrow> turtle \<Rightarrow> turtle" where
  "setFillColor_rgb c s = setFillColor (ucast (red c)) (ucast (green c)) (ucast (blue c)) s"

definition drawTurtle_leg :: "turtleState \<Rightarrow> 32 word \<Rightarrow> 32 word \<Rightarrow> turtle \<Rightarrow> fatal + turtle" where
  "drawTurtle_leg original_turtle i j s =
     seq (forward (i * 7) (backup s)) (\<lambda>s1.
     seq (strafeLeft (j * 7) s1) (\<lambda>s2.
       let s3 = setFillColor_rgb (strokeColor (mainTurtle s2)) s2;
           s4 = fillCircle_here 5 s3;
           s5 = setFillColor_rgb (fillColor original_turtle) s4;
           s6 = fillCircle_here 3 s5
       in Inr (restore s6)))"

definition drawTurtle_head :: "turtleState \<Rightarrow> turtle \<Rightarrow> fatal + turtle" where
  "drawTurtle_head original_turtle s =
     seq (forward 10 (backup s)) (\<lambda>s1.
       let s2 = setFillColor_rgb (strokeColor (mainTurtle s1)) s1;
           s3 = fillCircle_here 5 s2;
           s4 = setFillColor_rgb (fillColor original_turtle) s3;
           s5 = fillCircle_here 3 s4
       in Inr (restore s5))"

definition drawTurtle_body :: "turtleState \<Rightarrow> 32 word \<Rightarrow> turtle \<Rightarrow> turtle" where
  "drawTurtle_body original_turtle i s =
     (let s1 = backup s;
          s2 = setFillColor_rgb (strokeColor (mainTurtle s1)) s1;
          s3 = fillCircle_here (i + 2) s2;
          s4 = setFillColor_rgb (fillColor original_turtle) s3;
          s5 = fillCircle_here i s4
      in restore s5)"

text \<open>
  The loops \<^verbatim>\<open>for (i = -1; i < 2; i += 2)\<close>, the same over \<open>j\<close>, and
  \<^verbatim>\<open>for (i = 9; i >= 0; i -= 4)\<close> run over the values -1, 1 and 9, 5, 1.
\<close>

definition drawTurtle :: "turtle \<Rightarrow> fatal + turtle" where
  "drawTurtle s =
     (let original_turtle = mainTurtle s
      in seq (drawTurtle_leg original_turtle (- 1) (- 1) (penUp s)) (\<lambda>s.
         seq (drawTurtle_leg original_turtle (- 1) 1 s) (\<lambda>s.
         seq (drawTurtle_leg original_turtle 1 (- 1) s) (\<lambda>s.
         seq (drawTurtle_leg original_turtle 1 1 s) (\<lambda>s.
         seq (drawTurtle_head original_turtle s) (\<lambda>s.
           Inr ((fold (drawTurtle_body original_turtle) [9, 5, 1] s)
                  \<lparr>mainTurtle := original_turtle\<rparr>)))))))"


section \<open>Digits\<close>

definition TURTLE_DIGITS :: "nat list list" where
  "TURTLE_DIGITS =
     [[0, 1, 1, 0,  1, 0, 0, 1,  1, 0, 0, 1,  1, 0, 0, 1,  0, 1, 1, 0],
      [0, 1, 1, 0,  0, 0, 1, 0,  0, 0, 1, 0,  0, 0, 1, 0,  0, 1, 1, 1],
      [1, 1, 1, 0,  0, 0, 0, 1,  0, 1, 1, 0,  1, 0, 0, 0,  1, 1, 1, 1],
      [1, 1, 1, 0,  0, 0, 0, 1,  0, 1, 1, 0,  0, 0, 0, 1,  1, 1, 1, 0],
      [0, 1, 0, 1,  0, 1, 0, 1,  0, 1, 1, 1,  0, 0, 0, 1,  0, 0, 0, 1],
      [1, 1, 1, 1,  1, 0, 0, 0,  1, 1, 1, 0,  0, 0, 0, 1,  1, 1, 1, 0],
      [0, 1, 1, 0,  1, 0, 0, 0,  1, 1, 1, 0,  1, 0, 0, 1,  0, 1, 1, 0],
      [1, 1, 1, 1,  0, 0, 0, 1,  0, 0, 1, 0,  0, 1, 0, 0,  0, 1, 0, 0],
      [0, 1, 1, 0,  1, 0, 0, 1,  0, 1, 1, 0,  1, 0, 0, 1,  0, 1, 1, 0],
      [0, 1, 1, 0,  1, 0, 0, 1,  0, 1, 1, 1,  0, 0, 0, 1,  0, 1, 1, 0]]"

text \<open>The cells of one glyph, row by row; a digit above 9 indexes past the table.\<close>

function drawDigit_cells :: "nat \<Rightarrow> 32 word \<Rightarrow> nat \<Rightarrow> nat \<Rightarrow> turtle \<Rightarrow> fatal + turtle" where
  "drawDigit_cells digit digitIndex y x s =
     (if y < 5 then
        (if x < 4 then
           (case (if TURTLE_DIGITS ! digit ! (y * 4 + x) = 1
                  then drawPixel
                         (double_to_int (xpos (mainTurtle s) + int_to_double (digitIndex * 5) + real x))
                         (double_to_int (ypos (mainTurtle s) - real y)) s
                  else Inr s) of
              Inl e \<Rightarrow> Inl e
            | Inr s' \<Rightarrow> drawDigit_cells digit digitIndex y (x + 1) s')
         else drawDigit_cells digit digitIndex (y + 1) 0 s)
      else Inr s)"
  by pat_completeness auto
termination
  by (relation "measures [\<lambda>(digit, digitIndex, y, x, s). 5 - y,
                          \<lambda>(digit, digitIndex, y, x, s). 4 - x]") auto

declare drawDigit_cells.simps [simp del]

definition drawDigit :: "8 word \<Rightarrow> 32 word \<Rightarrow> turtle \<Rightarrow> fatal + turtle" where
  "drawDigit digit digitIndex s =
     (if unat digit < 10 then drawDigit_cells (unat digit) digitIndex 0 0 s else Inl BadIndex)"

text \<open>
  \<^verbatim>\<open>countDigits\<close>: for \<^verbatim>\<open>number > 9\<close> the statement \<^verbatim>\<open>(int) (ceil(log10(number)));\<close>
  computes a value and drops it, and the function ends without a \<^verbatim>\<open>return\<close>.
\<close>

definition countDigits :: "32 word \<Rightarrow> fatal + 16 word" where
  "countDigits number = (if 9 <s number then Inl NoReturnValue else Inr 1)"

function drawInt_loop :: "32 word \<Rightarrow> 32 word \<Rightarrow> turtle \<Rightarrow> fatal + turtle" where
  "drawInt_loop i number s =
     (if 0 \<le>s i then
        (case drawDigit (ucast (smod32 number 10)) i s of
           Inl e \<Rightarrow> Inl e
         | Inr s' \<Rightarrow> drawInt_loop (i - 1) (sdiv32 number 10) s')
      else Inr s)"
  by pat_completeness auto
termination
  by (relation "measure (\<lambda>(i, number, s). nat (sint i + 1))")
     (auto simp: sint_pred_nonneg word_sle_eq)

declare drawInt_loop.simps [simp del]

definition drawInt :: "32 word \<Rightarrow> turtle \<Rightarrow> fatal + turtle" where
  "drawInt number s =
     seq (countDigits number) (\<lambda>digitsCount. drawInt_loop (ucast digitsCount - 1) number s)"


section \<open>Construction\<close>

text \<open>
  The constructor: \<^verbatim>\<open>totalSize\<close> is a \<^verbatim>\<open>size_t\<close> (64 bits), every byte of the image is
  set to 255, then \<^verbatim>\<open>reset()\<close> and \<^verbatim>\<open>backup()\<close>. The other fields take the initial
  values of their declarations.
\<close>

definition Turtle :: "32 word \<Rightarrow> 32 word \<Rightarrow> (string \<Rightarrow> bool) \<Rightarrow> (nat \<Rightarrow> bool) \<Rightarrow> fatal + turtle" where
  "Turtle width height fopen malloc =
     (let totalSize = (3 * unat width * unat height) mod 2 ^ 64;
          zero = \<lparr>xpos = 0, ypos = 0, heading = 0,
                  strokeColor = \<lparr>red = 0, green = 0, blue = 0\<rparr>,
                  fillColor = \<lparr>red = 0, green = 0, blue = 0\<rparr>,
                  pendown = False, filled = False\<rparr>
      in if \<not> malloc totalSize then Inl CannotAllocateImage
         else Inr (backup (reset
                \<lparr>mainTurtle = zero, backupTurtle = zero,
                 mainTurtleImage = replicate (totalSize div 3) white,
                 mainFieldWidth = width, mainFieldHeight = height,
                 mainFieldSaveFrames = False, mainFieldFrameCount = 0,
                 mainFieldFrameInterval = 10, mainFieldPixelCount = 0,
                 mainTurtlePoly = [], numPixelsOutOfBounds = 0,
                 stderr_out = [], written = [],
                 fopen_ok = fopen, malloc_ok = malloc\<rparr>)))"


section \<open>Sequences of calls\<close>

datatype command =
    Forward "32 word" | Backward "32 word" | StrafeLeft "32 word" | StrafeRight "32 word"
  | GoToInt "32 word" "32 word" | GoTo real real
  | TurnLeft real | TurnRight real | SetHeading real
  | PenUp | PenDown
  | SetPenColor "32 word" "32 word" "32 word" | SetFillColor "32 word" "32 word" "32 word"
  | BeginFill | EndFill
  | Reset

fun exec :: "command \<Rightarrow> turtle \<Rightarrow> fatal + turtle" where
  "exec (Forward n) s = forward n s"
| "exec (Backward n) s = backward n s"
| "exec (StrafeLeft n) s = strafeLeft n s"
| "exec (StrafeRight n) s = strafeRight n s"
| "exec (GoToInt x y) s = goTo_int x y s"
| "exec (GoTo x y) s = goTo x y s"
| "exec (TurnLeft a) s = Inr (turnLeft a s)"
| "exec (TurnRight a) s = Inr (turnRight a s)"
| "exec (SetHeading a) s = Inr (setHeading a s)"
| "exec PenUp s = Inr (penUp s)"
| "exec PenDown s = Inr (penDown s)"
| "exec (SetPenColor r g b) s = Inr (setPenColor r g b s)"
| "exec (SetFillColor r g b) s = Inr (setFillColor r g b s)"
| "exec BeginFill s = Inr (beginFill s)"
| "exec EndFill s = endFill s"
| "exec Reset s = Inr (reset s)"

fun run :: "command list \<Rightarrow> turtle \<Rightarrow> fatal + turtle" where
  "run [] s = Inr s"
| "run (c # cs) s = seq (exec c s) (run cs)"


section \<open>Observations and specification functions\<close>

text \<open>
  The class has no pixel getter. The pixel at \<open>(x, y)\<close> is the cell of the buffer that
  \<^verbatim>\<open>drawPixel\<close> and \<^verbatim>\<open>fillPixel\<close> address for \<open>(x, y)\<close>.
\<close>

definition pixel_at :: "turtle \<Rightarrow> 32 word \<Rightarrow> 32 word \<Rightarrow> rgb" where
  "pixel_at s x y = mainTurtleImage s ! unat (pixel_index s x y)"

text \<open>\<open>n\<close> successive calls \<^verbatim>\<open>drawPixel(x, y)\<close>.\<close>

primrec drawPixel_times :: "nat \<Rightarrow> 32 word \<Rightarrow> 32 word \<Rightarrow> turtle \<Rightarrow> fatal + turtle" where
  "drawPixel_times 0 x y s = Inr s"
| "drawPixel_times (Suc n) x y s = seq (drawPixel x y s) (drawPixel_times n x y)"


text \<open>
  The intercepts of row \<open>y\<close> with a polygon, as the fill algorithm is described: every
  edge (vertex \<open>i\<close> and the vertex before it, the last one for \<open>i = 0\<close>) that crosses
  the row gives one interpolated x value.
\<close>

fun edges_from :: "real \<times> real \<Rightarrow> (real \<times> real) list \<Rightarrow> ((real \<times> real) \<times> (real \<times> real)) list" where
  "edges_from vj [] = []"
| "edges_from vj (vi # rest) = (vi, vj) # edges_from vi rest"

definition scanline_intercepts :: "(real \<times> real) list \<Rightarrow> real \<Rightarrow> real list" where
  "scanline_intercepts poly y =
     map (\<lambda>(vi, vj). intercept y vi vj)
       (filter (\<lambda>(vi, vj). crosses y vi vj) (edges_from (last poly) poly))"

text \<open>
  Reading a bitmap file back, following the file layout: the 14 + 40 byte header with
  the data offset at byte 10, the width at 18, the height at 22, the bit count at 28 and
  the compression at 30 (little-endian); then the rows, each padded to a multiple of
  4 bytes, each pixel as blue, green, red.
\<close>

definition u32_at :: "8 word list \<Rightarrow> nat \<Rightarrow> 32 word" where
  "u32_at bs k =
     ucast (bs ! k) OR push_bit 8 (ucast (bs ! (k + 1))) OR
     push_bit 16 (ucast (bs ! (k + 2))) OR push_bit 24 (ucast (bs ! (k + 3)))"

definition u16_at :: "8 word list \<Rightarrow> nat \<Rightarrow> 16 word" where
  "u16_at bs k = ucast (bs ! k) OR push_bit 8 (ucast (bs ! (k + 1)))"

definition parse_pixels :: "nat \<Rightarrow> nat \<Rightarrow> 8 word list \<Rightarrow> rgb list" where
  "parse_pixels w h data =
     (let stride = (3 * w + 3) div 4 * 4
      in concat (map (\<lambda>i. map (\<lambda>j. \<lparr>red = data ! (i * stride + 3 * j + 2),
                                        green = data ! (i * stride + 3 * j + 1),
                                        blue = data ! (i * stride + 3 * j)\<rparr>) [0..<w]) [0..<h]))"

definition parseBMP :: "8 word list \<Rightarrow> 32 word \<times> 32 word \<times> 16 word \<times> 32 word \<times> rgb list" where
  "parseBMP bs =
     (let w = u32_at bs 18; h = u32_at bs 22
      in (w, h, u16_at bs 28, u32_at bs 30,
          parse_pixels (unat w) (unat h) (drop (unat (u32_at bs 10)) bs)))"

text \<open>The bytes \<^verbatim>\<open>saveBMP\<close> writes for row \<open>r\<close>: blue, green, red per pixel, then zeros.\<close>

definition bmp_row :: "rgb list \<Rightarrow> nat \<Rightarrow> nat \<Rightarrow> nat \<Rightarrow> 8 word list" where
  "bmp_row img W stride r =
     map (\<lambda>k. if k < 3 * W then image_byte img (3 * (W * r + k div 3) + (2 - k mod 3)) else 0)
       [0..<stride]"


section \<open>A fresh engine\<close>

lemma Turtle_fresh:
  "malloc ((3 * unat w * unat h) mod 2 ^ 64) \<Longrightarrow>
   \<exists>s0. Turtle w h fopen malloc = Inr s0 \<and>
     mainFieldWidth s0 = w \<and> mainFieldHeight s0 = h \<and>
     mainTurtleImage s0 = replicate ((3 * unat w * unat h) mod 2 ^ 64 div 3) white \<and>
     numPixelsOutOfBounds s0 = 0 \<and> stderr_out s0 = [] \<and> written s0 = [] \<and>
     \<not> mainFieldSaveFrames s0 \<and> mainTurtlePoly s0 = [] \<and>
     backupTurtle s0 = mainTurtle s0 \<and>
     mainTurtle s0 = \<lparr>xpos = 0, ypos = 0, heading = 0,
          strokeColor = \<lparr>red = 0, green = 0, blue = 0\<rparr>,
          fillColor = \<lparr>red = 0, green = 255, blue = 0\<rparr>,
          pendown = True, filled = False\<rparr>"
  by (simp add: Turtle_def Let_def backup_def reset_def)


section \<open>Stroke pixels: the bounds check\<close>


text \<open>
  What the out-of-bounds branch of \<^verbatim>\<open>drawPixel\<close> does: the buffer is untouched, the
  counter goes up by one, and a message is printed while the incremented counter is
  below 100.
\<close>

lemma drawPixel_dropped:
  assumes "out_of_bounds s x y"
  shows "\<exists>s'. drawPixel x y s = Inr s' \<and> mainTurtleImage s' = mainTurtleImage s \<and>
     mainFieldWidth s' = mainFieldWidth s \<and> mainFieldHeight s' = mainFieldHeight s \<and>
     numPixelsOutOfBounds s' = numPixelsOutOfBounds s + 1 \<and>
     stderr_out s' =
       (if numPixelsOutOfBounds s + 1 < 100
        then stderr_out s @ [''Pixel out of bounds: ('' @ printf_d (sint x) @ '','' @
                             printf_d (sint y) @ '')'']
        else stderr_out s)"
  using assms by (simp add: drawPixel_def Let_def)

text \<open>After \<open>n\<close> dropped calls on a counter \<open>c\<close>, \<open>min (c + n) 99 - min c 99\<close> messages were printed.\<close>

lemma drawPixel_times_dropped:
  "out_of_bounds s x y \<Longrightarrow> unat (numPixelsOutOfBounds s) + n < 2 ^ 64 \<Longrightarrow>
   \<exists>s'. drawPixel_times n x y s = Inr s' \<and> mainTurtleImage s' = mainTurtleImage s \<and>
     out_of_bounds s' x y \<and>
     unat (numPixelsOutOfBounds s') = unat (numPixelsOutOfBounds s) + n \<and>
     length (stderr_out s') + min (unat (numPixelsOutOfBounds s)) 99 =
       length (stderr_out s) + min (unat (numPixelsOutOfBounds s) + n) 99"
proof (induction n arbitrary: s)
  case 0
  then show ?case by simp
next
  case (Suc n)
  from drawPixel_dropped [OF Suc.prems(1)] obtain s1 where s1:
    "drawPixel x y s = Inr s1" "mainTurtleImage s1 = mainTurtleImage s"
    "mainFieldWidth s1 = mainFieldWidth s" "mainFieldHeight s1 = mainFieldHeight s"
    "numPixelsOutOfBounds s1 = numPixelsOutOfBounds s + 1"
    "length (stderr_out s1) =
       length (stderr_out s) + (if numPixelsOutOfBounds s + 1 < 100 then 1 else 0)"
    by (auto split: if_splits)
  have c1: "unat (numPixelsOutOfBounds s + 1) = unat (numPixelsOutOfBounds s) + 1"
    using Suc.prems(2) by (simp add: unat_word_ariths)
  have lt: "numPixelsOutOfBounds s + 1 < 100 \<longleftrightarrow> unat (numPixelsOutOfBounds s) + 1 < 100"
    using c1 by (simp add: word_less_nat_alt)
  have oob: "out_of_bounds s1 x y"
    using Suc.prems(1) s1(3,4) by (simp add: out_of_bounds_def)
  have "unat (numPixelsOutOfBounds s1) + n < 2 ^ 64"
    using Suc.prems(2) s1(5) c1 by simp
  from Suc.IH [OF oob this] obtain s' where s':
    "drawPixel_times n x y s1 = Inr s'" "mainTurtleImage s' = mainTurtleImage s1"
    "out_of_bounds s' x y"
    "unat (numPixelsOutOfBounds s') = unat (numPixelsOutOfBounds s1) + n"
    "length (stderr_out s') + min (unat (numPixelsOutOfBounds s1)) 99 =
       length (stderr_out s1) + min (unat (numPixelsOutOfBounds s1) + n) 99"
    by blast
  have "drawPixel_times (Suc n) x y s = Inr s'"
    using s1(1) s'(1) by (simp add: seq_def)
  moreover have "mainTurtleImage s' = mainTurtleImage s" using s'(2) s1(2) by simp
  moreover have "unat (numPixelsOutOfBounds s') = unat (numPixelsOutOfBounds s) + Suc n"
    using s'(4) s1(5) c1 by simp
  moreover have "length (stderr_out s') + min (unat (numPixelsOutOfBounds s)) 99 =
       length (stderr_out s) + min (unat (numPixelsOutOfBounds s) + Suc n) 99"
    using s'(5) s1(5,6) c1 lt by (auto simp: min_def split: if_splits)
  ultimately show ?case using s'(3) by blast
qed

text \<open>
  Claim C1. For a coordinate in the centred range, \<^verbatim>\<open>drawPixel\<close> followed by a read of
  that pixel gives the stroke colour, and \<^verbatim>\<open>fillPixel\<close> the fill colour. On a fresh
  100 x 100 engine the call \<^verbatim>\<open>drawPixel(0, 0)\<close> takes the out-of-bounds branch: the buffer
  is unchanged, the pixel at (0, 0) is still white while the stroke colour is black, and
  the diagnostic is printed. \<^verbatim>\<open>fillPixel(0, 0)\<close> does write the fill colour there, but
  \<^verbatim>\<open>fillPixel(0, 50)\<close>, on the upper edge of the range, computes the index 10050 past
  the 10000 cells and leaves the buffer unchanged.
\<close>

theorem drawPixel_centre_is_dropped:
  "\<exists>s0 s1. Turtle 100 100 (\<lambda>_. True) (\<lambda>_. True) = Inr s0 \<and> drawPixel 0 0 s0 = Inr s1 \<and>
     mainTurtleImage s1 = mainTurtleImage s0 \<and> pixel_at s1 0 0 = white \<and>
     strokeColor (mainTurtle s1) = \<lparr>red = 0, green = 0, blue = 0\<rparr> \<and>
     stderr_out s1 = [''Pixel out of bounds: (0,0)''] \<and>
     pixel_at (fillPixel 0 0 s0) 0 0 = fillColor (mainTurtle s0) \<and>
     pixel_index s0 0 50 = 10050 \<and>
     mainTurtleImage (fillPixel 0 50 s0) = mainTurtleImage s0"
  by (simp add: Turtle_def backup_def reset_def drawPixel_def out_of_bounds_def Let_def
      pixel_at_def pixel_index_def printf_d_def digits10.simps fillPixel_def word_sle_eq)

text \<open>
  Claim C3. An out-of-range \<^verbatim>\<open>drawPixel\<close> leaves the buffer unchanged, and exactly the
  first 100 such calls print a diagnostic. On a fresh 100 x 100 engine, 99 calls
  \<^verbatim>\<open>drawPixel(1000, 1000)\<close> print 99 messages; call number 100 prints nothing. The
  buffer is unchanged throughout.
\<close>

theorem drawPixel_hundredth_call_is_silent:
  "\<exists>s0 s99 s100. Turtle 100 100 (\<lambda>_. True) (\<lambda>_. True) = Inr s0 \<and>
     drawPixel_times 99 1000 1000 s0 = Inr s99 \<and> drawPixel 1000 1000 s99 = Inr s100 \<and>
     length (stderr_out s99) = 99 \<and> stderr_out s100 = stderr_out s99 \<and>
     mainTurtleImage s100 = mainTurtleImage s0"
proof -
  from Turtle_fresh [of "\<lambda>_. True" 100 100 "\<lambda>_. True"] obtain s0 where s0:
    "Turtle 100 100 (\<lambda>_. True) (\<lambda>_. True) = Inr s0"
    "mainFieldWidth s0 = 100" "mainFieldHeight s0 = 100"
    "numPixelsOutOfBounds s0 = 0" "stderr_out s0 = []"
    by auto
  have oob: "out_of_bounds s0 1000 1000"
    by (simp add: out_of_bounds_def s0)
  from drawPixel_times_dropped [OF oob, of 99] s0 obtain s99 where s99:
    "drawPixel_times 99 1000 1000 s0 = Inr s99" "mainTurtleImage s99 = mainTurtleImage s0"
    "out_of_bounds s99 1000 1000"
    "unat (numPixelsOutOfBounds s99) = 99" "length (stderr_out s99) = 99"
    by auto
  have n99: "numPixelsOutOfBounds s99 = 99"
    using s99(4) by (simp add: word_unat_eq_iff)
  from drawPixel_dropped [OF s99(3)] obtain s100 where
    "drawPixel 1000 1000 s99 = Inr s100" "mainTurtleImage s100 = mainTurtleImage s99"
    "stderr_out s100 = stderr_out s99"
    by (auto simp: n99)
  with s0(1) s99 show ?thesis by simp
qed

text \<open>
  Claim C4. \<^verbatim>\<open>fillPixel\<close> outside the centred range leaves the buffer unchanged. On a
  fresh 10 x 10 engine the coordinate (6, 0) is right of the range (the largest x is 5,
  and the bounds check of \<^verbatim>\<open>drawPixel\<close> rejects it), yet \<^verbatim>\<open>fillPixel(6, 0)\<close> writes the
  fill colour into cell 61 of the buffer, the second cell of the next row.
\<close>

theorem fillPixel_right_of_range_writes:
  "\<exists>s0. Turtle 10 10 (\<lambda>_. True) (\<lambda>_. True) = Inr s0 \<and>
     mainFieldWidth s0 div 2 <s 6 \<and> out_of_bounds s0 6 0 \<and>
     mainTurtleImage (fillPixel 6 0 s0) = (mainTurtleImage s0)[61 := fillColor (mainTurtle s0)] \<and>
     mainTurtleImage (fillPixel 6 0 s0) ! 61 = \<lparr>red = 0, green = 255, blue = 0\<rparr> \<and>
     mainTurtleImage s0 ! 61 = white"
  by (simp add: Turtle_def backup_def reset_def fillPixel_def out_of_bounds_def Let_def
      pixel_index_def word_sle_eq word_sless_alt)

text \<open>
  Claim C5. \<^verbatim>\<open>drawLine(0, 0, 5, 0)\<close> paints exactly the six pixels (0,0) .. (5,0). On a
  fresh 100 x 100 engine the call passes these six coordinates, the start pixel first,
  to \<^verbatim>\<open>drawPixel\<close>, which drops every one of them: six diagnostics and an unchanged
  buffer, in which all six pixels are still white.
\<close>

theorem drawLine_paints_nothing:
  "\<exists>s0 s1. Turtle 100 100 (\<lambda>_. True) (\<lambda>_. True) = Inr s0 \<and> drawLine 0 0 5 0 s0 = Inr s1 \<and>
     mainTurtleImage s1 = mainTurtleImage s0 \<and>
     map (\<lambda>x. pixel_at s1 x 0) [0, 1, 2, 3, 4, 5] = [white, white, white, white, white, white] \<and>
     stderr_out s1 =
       [''Pixel out of bounds: (0,0)'', ''Pixel out of bounds: (1,0)'',
        ''Pixel out of bounds: (2,0)'', ''Pixel out of bounds: (3,0)'',
        ''Pixel out of bounds: (4,0)'', ''Pixel out of bounds: (5,0)'']"
  by (simp add: Turtle_def backup_def reset_def drawPixel_def out_of_bounds_def Let_def
      pixel_at_def pixel_index_def printf_d_def digits10.simps drawLine_def abs32_def sdiv32_def
      signed_divide_int_def drawLine_horizontal.simps offset_def word_sless_alt)


section \<open>Heading\<close>

text \<open>
  Claim C2. After any turn the heading is in [0, 360). \<^verbatim>\<open>turnLeft(370)\<close> from heading 0
  gives 10, but \<^verbatim>\<open>turnLeft\<close> subtracts 360 once only: \<^verbatim>\<open>turnLeft(720)\<close> from heading 0
  gives 360, and \<^verbatim>\<open>turnRight(720)\<close> gives -360.
\<close>

theorem turnLeft_720_leaves_range:
  "heading (mainTurtle (turnLeft 370 (s\<lparr>mainTurtle := (mainTurtle s)\<lparr>heading := 0\<rparr>\<rparr>))) = 10 \<and>
   heading (mainTurtle (turnLeft 720 (s\<lparr>mainTurtle := (mainTurtle s)\<lparr>heading := 0\<rparr>\<rparr>))) = 360 \<and>
   heading (mainTurtle (turnRight 720 (s\<lparr>mainTurtle := (mainTurtle s)\<lparr>heading := 0\<rparr>\<rparr>))) = - 360"
  by (simp add: turnLeft_def turnRight_def)


section \<open>Digits of an integer\<close>

text \<open>
  Claim C9. \<^verbatim>\<open>drawInt\<close> takes the digit count from \<^verbatim>\<open>countDigits\<close>: 1 for 0 and 3 for
  123. \<^verbatim>\<open>countDigits(0)\<close> returns 1, but \<^verbatim>\<open>countDigits(123)\<close> returns nothing, and
  \<^verbatim>\<open>drawInt(123)\<close> inherits that.
\<close>

theorem countDigits_123_has_no_value:
  "countDigits 0 = Inr 1 \<and> countDigits 123 = Inl NoReturnValue \<and>
   drawInt 123 s = Inl NoReturnValue"
  by (simp add: countDigits_def drawInt_def seq_def word_sless_alt)


section \<open>Backup and restore\<close>

text \<open>No drawing or moving operation writes the backup slot.\<close>

lemma fillPixel_turtles [simp]:
  "mainTurtle (fillPixel x y s) = mainTurtle s"
  "backupTurtle (fillPixel x y s) = backupTurtle s"
  by (simp_all add: fillPixel_def Let_def)

lemma turn_pen_backup [simp]:
  "pendown (mainTurtle (turnLeft a s)) = pendown (mainTurtle s)"
  "backupTurtle (turnLeft a s) = backupTurtle s"
  "pendown (mainTurtle (turnRight a s)) = pendown (mainTurtle s)"
  "backupTurtle (turnRight a s) = backupTurtle s"
  by (simp_all add: turnLeft_def turnRight_def Let_def)

lemma saveBMP_backup: "saveBMP filename s = Inr s' \<Longrightarrow> backupTurtle s' = backupTurtle s"
  by (auto simp: saveBMP_def Let_def split: if_splits sum.splits)

lemma saveFrame_backup: "saveFrame s = Inr s' \<Longrightarrow> backupTurtle s' = backupTurtle s"
  by (auto simp: saveFrame_def Let_def dest!: saveBMP_backup)

lemma drawPixel_backup: "drawPixel x y s = Inr s' \<Longrightarrow> backupTurtle s' = backupTurtle s"
  by (auto simp: drawPixel_def Let_def split: if_splits dest!: saveFrame_backup)

lemma drawLine_horizontal_backup:
  "drawLine_horizontal absX absY right up x1 x y err s = Inr s' \<Longrightarrow>
   backupTurtle s' = backupTurtle s"
proof (induction absX absY right up x1 x y err s rule: drawLine_horizontal.induct)
  case (1 absX absY right up x1 x y err s)
  show ?case
  proof (cases "x = x1")
    case True
    with "1.prems" show ?thesis by (simp add: drawLine_horizontal.simps)
  next
    case False
    with "1.prems" obtain s1 where s1:
      "drawPixel (x + offset right) (if err - absY <s 0 then y + offset up else y) s = Inr s1"
      "drawLine_horizontal absX absY right up x1 (x + offset right)
         (if err - absY <s 0 then y + offset up else y)
         (if err - absY <s 0 then err - absY + absX else err - absY) s1 = Inr s'"
      by (subst (asm) drawLine_horizontal.simps) (auto simp: Let_def split: sum.splits)
    from "1.IH" [OF False refl refl refl refl s1(1) s1(2)] drawPixel_backup [OF s1(1)]
    show ?thesis by simp
  qed
qed

lemma drawLine_vertical_backup:
  "drawLine_vertical absX absY right up y1 x y err s = Inr s' \<Longrightarrow>
   backupTurtle s' = backupTurtle s"
proof (induction absX absY right up y1 x y err s rule: drawLine_vertical.induct)
  case (1 absX absY right up y1 x y err s)
  show ?case
  proof (cases "y = y1")
    case True
    with "1.prems" show ?thesis by (simp add: drawLine_vertical.simps)
  next
    case False
    with "1.prems" obtain s1 where s1:
      "drawPixel (if err - absX <s 0 then x + offset right else x) (y + offset up) s = Inr s1"
      "drawLine_vertical absX absY right up y1
         (if err - absX <s 0 then x + offset right else x) (y + offset up)
         (if err - absX <s 0 then err - absX + absY else err - absX) s1 = Inr s'"
      by (subst (asm) drawLine_vertical.simps) (auto simp: Let_def split: sum.splits)
    from "1.IH" [OF False refl refl refl refl s1(1) s1(2)] drawPixel_backup [OF s1(1)]
    show ?thesis by simp
  qed
qed

lemma drawLine_backup: "drawLine x0 y0 x1 y1 s = Inr s' \<Longrightarrow> backupTurtle s' = backupTurtle s"
  by (auto simp: drawLine_def Let_def split: sum.splits if_splits
      dest!: drawPixel_backup drawLine_horizontal_backup drawLine_vertical_backup)

lemma goTo_backup: "goTo x y s = Inr s' \<Longrightarrow> backupTurtle s' = backupTurtle s"
  by (auto simp: goTo_def seq_def Let_def split: sum.splits if_splits dest!: drawLine_backup)

lemma forward_backup: "forward pixels s = Inr s' \<Longrightarrow> backupTurtle s' = backupTurtle s"
  by (auto simp: forward_def Let_def dest!: goTo_backup)

lemma strafe_backup:
  "strafeLeft pixels s = Inr s' \<Longrightarrow> backupTurtle s' = backupTurtle s"
  "strafeRight pixels s = Inr s' \<Longrightarrow> backupTurtle s' = backupTurtle s"
  by (auto simp: strafeLeft_def strafeRight_def seq_def split: sum.splits dest!: forward_backup)

lemma fill_span_backup [simp]: "backupTurtle (fill_span x xend y s) = backupTurtle s"
  by (induction x xend y s rule: fill_span.induct) (subst fill_span.simps, simp)

lemma fill_pairs_backup: "fill_pairs nodes y s = Inr s' \<Longrightarrow> backupTurtle s' = backupTurtle s"
  by (induction nodes y s rule: fill_pairs.induct) simp_all

lemma fill_rows_backup: "fill_rows y s = Inr s' \<Longrightarrow> backupTurtle s' = backupTurtle s"
proof (induction y s rule: fill_rows.induct)
  case (1 y s)
  show ?case
  proof (cases "y < mainFieldHeight s div 2")
    case False
    with "1.prems" show ?thesis by (simp add: fill_rows.simps)
  next
    case True
    with "1.prems" obtain nodeX s1 where s1:
      "row_nodes (mainTurtlePoly s) (int_to_double y) = Inr nodeX"
      "fill_pairs (sort_nodes [] nodeX) y s = Inr s1"
      "fill_rows (y + 1) s1 = Inr s'"
      by (subst (asm) fill_rows.simps) (auto split: sum.splits)
    from "1.IH" [OF True s1] fill_pairs_backup [OF s1(2)] show ?thesis by simp
  qed
qed

lemma redraw_polygon_backup:
  "redraw_polygon poly i s = Inr s' \<Longrightarrow> backupTurtle s' = backupTurtle s"
proof (induction poly i s rule: redraw_polygon.induct)
  case (1 poly i s)
  show ?case
  proof (cases "i < length poly")
    case False
    with "1.prems" show ?thesis by (simp add: redraw_polygon.simps)
  next
    case True
    with "1.prems" obtain s1 where s1:
      "drawLine (double_to_int (c_round (fst (poly ! i)))) (double_to_int (c_round (snd (poly ! i))))
         (double_to_int (c_round (fst (poly ! ((i + 1) mod length poly)))))
         (double_to_int (c_round (snd (poly ! ((i + 1) mod length poly))))) s = Inr s1"
      "redraw_polygon poly (i + 1) s1 = Inr s'"
      by (subst (asm) redraw_polygon.simps) (auto simp: Let_def split: sum.splits)
    from "1.IH" [OF True refl refl s1] drawLine_backup [OF s1(1)] show ?thesis by simp
  qed
qed

lemma endFill_backup: "endFill s = Inr s' \<Longrightarrow> backupTurtle s' = backupTurtle s"
  by (auto simp: endFill_def seq_def Let_def split: sum.splits
      dest!: fill_rows_backup redraw_polygon_backup)

lemma exec_backup: "exec c s = Inr s' \<Longrightarrow> backupTurtle s' = backupTurtle s"
  by (cases c)
     (auto simp: backward_def goTo_int_def setHeading_def penUp_def penDown_def setPenColor_def
        setFillColor_def beginFill_def reset_def
        dest: forward_backup strafe_backup goTo_backup endFill_backup)

lemma run_backup: "run cs s = Inr s' \<Longrightarrow> backupTurtle s' = backupTurtle s"
proof (induction cs arbitrary: s)
  case Nil
  then show ?case by simp
next
  case (Cons c cs)
  then obtain s1 where "exec c s = Inr s1" "run cs s1 = Inr s'"
    by (auto simp: seq_def split: sum.splits)
  with Cons.IH [of s1] exec_backup [of c s s1] show ?case by simp
qed

text \<open>
  Claim C8. \<^verbatim>\<open>backup()\<close>, then any sequence of moves, turns, pen changes, colour changes
  and fill toggles, then \<^verbatim>\<open>restore()\<close>: position, heading, stroke and fill colour, pen
  flag and fill flag are the ones at the time of the backup. \<open>run cs\<close> returns \<open>Inr\<close> when
  no call of the sequence ended the process.
\<close>

theorem backup_restore_roundtrip:
  "run cs (backup s) = Inr s' \<Longrightarrow> mainTurtle (restore s') = mainTurtle s"
  by (auto simp: restore_def backup_def dest!: run_backup)


text \<open>
  A sequence that draws, turns, recolours and fills on a fresh 100 x 100 engine: it
  changes the turtle, and \<^verbatim>\<open>restore()\<close> brings the backed-up turtle back.
\<close>

theorem backup_restore_roundtrip_witness:
  "\<exists>s0 s'. Turtle 100 100 (\<lambda>_. True) (\<lambda>_. True) = Inr s0 \<and>
     run [BeginFill, Forward 5, TurnLeft 90, SetPenColor 255 0 0, SetFillColor 1 2 3,
          GoToInt 3 4, EndFill, PenUp] (backup s0) = Inr s' \<and>
     mainTurtle s' \<noteq> mainTurtle s0 \<and> mainTurtle (restore s') = mainTurtle s0"
proof -
  have "\<exists>s0 s'. Turtle 100 100 (\<lambda>_. True) (\<lambda>_. True) = Inr s0 \<and>
     run [BeginFill, Forward 5, TurnLeft 90, SetPenColor 255 0 0, SetFillColor 1 2 3,
          GoToInt 3 4, EndFill, PenUp] (backup s0) = Inr s' \<and>
     heading (mainTurtle s') = 90 \<and> heading (mainTurtle s0) = 0"
    by (simp add: Turtle_def backup_def reset_def drawPixel_def out_of_bounds_def Let_def
      pixel_index_def printf_d_def digits10.simps drawLine_def abs32_def sdiv32_def
      signed_divide_int_def drawLine_horizontal.simps drawLine_vertical.simps offset_def
      word_sless_alt seq_def forward_def goTo_def goTo_int_def int_to_double_def
      double_to_int_def c_round_def beginFill_def turnLeft_def setPenColor_def setFillColor_def
      penUp_def endFill_def fill_rows.simps redraw_polygon.simps MAX_POLYGON_VERTICES_def)
  then obtain s0 s' where e:
    "Turtle 100 100 (\<lambda>_. True) (\<lambda>_. True) = Inr s0"
    "run [BeginFill, Forward 5, TurnLeft 90, SetPenColor 255 0 0, SetFillColor 1 2 3,
          GoToInt 3 4, EndFill, PenUp] (backup s0) = Inr s'"
    "heading (mainTurtle s') = 90" "heading (mainTurtle s0) = 0"
    by blast
  from e(3,4) have "mainTurtle s' \<noteq> mainTurtle s0" by auto
  with e(1,2) backup_restore_roundtrip [OF e(2)] show ?thesis by blast
qed


section \<open>The turtle icon keeps the pose\<close>

lemma fillCircle_column_turtles [simp]:
  "mainTurtle (fillCircle_column x0 y0 radius rad_sq x y s) = mainTurtle s \<and>
   backupTurtle (fillCircle_column x0 y0 radius rad_sq x y s) = backupTurtle s"
  by (induction x0 y0 radius rad_sq x y s rule: fillCircle_column.induct)
     (subst (1 2) fillCircle_column.simps, simp add: Let_def)

lemma fillCircle_rows_turtles [simp]:
  "mainTurtle (fillCircle_rows x0 y0 radius rad_sq x s) = mainTurtle s \<and>
   backupTurtle (fillCircle_rows x0 y0 radius rad_sq x s) = backupTurtle s"
  by (induction x0 y0 radius rad_sq x s rule: fillCircle_rows.induct)
     (subst (1 2) fillCircle_rows.simps, simp)

lemma fillCircle_here_turtles [simp]:
  "mainTurtle (fillCircle_here radius s) = mainTurtle s"
  "backupTurtle (fillCircle_here radius s) = backupTurtle s"
  by (simp_all add: fillCircle_here_def fillCircle_def)

lemma goTo_pen_up:
  "\<not> pendown (mainTurtle s) \<Longrightarrow>
   goTo x y s = Inr (s\<lparr>mainTurtle := (mainTurtle s)\<lparr>xpos := x, ypos := y\<rparr>\<rparr>)"
  by (simp add: goTo_def seq_def Let_def)

lemma forward_pen_up:
  "\<not> pendown (mainTurtle s) \<Longrightarrow>
   \<exists>s'. forward pixels s = Inr s' \<and> backupTurtle s' = backupTurtle s \<and>
        \<not> pendown (mainTurtle s')"
  by (simp add: forward_def Let_def goTo_pen_up)

lemma strafeLeft_pen_up:
  assumes "\<not> pendown (mainTurtle s)"
  shows "\<exists>s'. strafeLeft pixels s = Inr s' \<and> backupTurtle s' = backupTurtle s"
proof -
  from assms have "\<not> pendown (mainTurtle (turnLeft 90 s))" by simp
  from forward_pen_up [OF this, of pixels] obtain s1 where
    "forward pixels (turnLeft 90 s) = Inr s1" "backupTurtle s1 = backupTurtle s"
    by auto
  then show ?thesis by (simp add: strafeLeft_def seq_def)
qed

lemma setFillColor_rgb_backup [simp]:
  "backupTurtle (setFillColor_rgb c s) = backupTurtle s"
  by (simp add: setFillColor_rgb_def setFillColor_def)

lemma drawTurtle_leg_pen_up:
  assumes "\<not> pendown (mainTurtle s)"
  shows "\<exists>s'. drawTurtle_leg original i j s = Inr s' \<and> mainTurtle s' = mainTurtle s \<and>
     backupTurtle s' = mainTurtle s"
proof -
  have b: "\<not> pendown (mainTurtle (backup s))" "backupTurtle (backup s) = mainTurtle s"
    using assms by (simp_all add: backup_def)
  from forward_pen_up [OF b(1), of "i * 7"] b(2) obtain s1 where s1:
    "forward (i * 7) (backup s) = Inr s1" "backupTurtle s1 = mainTurtle s"
    "\<not> pendown (mainTurtle s1)"
    by auto
  from strafeLeft_pen_up [OF s1(3), of "j * 7"] s1(2) obtain s2 where s2:
    "strafeLeft (j * 7) s1 = Inr s2" "backupTurtle s2 = mainTurtle s"
    by auto
  show ?thesis
    by (simp add: drawTurtle_leg_def seq_def s1(1) s2 Let_def restore_def)
qed

lemma drawTurtle_head_pen_up:
  assumes "\<not> pendown (mainTurtle s)"
  shows "\<exists>s'. drawTurtle_head original s = Inr s' \<and> mainTurtle s' = mainTurtle s \<and>
     backupTurtle s' = mainTurtle s"
proof -
  have b: "\<not> pendown (mainTurtle (backup s))" "backupTurtle (backup s) = mainTurtle s"
    using assms by (simp_all add: backup_def)
  from forward_pen_up [OF b(1), of 10] b(2) obtain s1 where s1:
    "forward 10 (backup s) = Inr s1" "backupTurtle s1 = mainTurtle s"
    by auto
  show ?thesis
    by (simp add: drawTurtle_head_def seq_def s1 Let_def restore_def)
qed

lemma drawTurtle_body_turtles:
  "mainTurtle (drawTurtle_body original i s) = mainTurtle s \<and>
   backupTurtle (drawTurtle_body original i s) = mainTurtle s"
  by (simp add: drawTurtle_body_def Let_def restore_def backup_def)

text \<open>
  Claim C10. \<^verbatim>\<open>drawTurtle()\<close> returns, and the turtle afterwards is the turtle before the
  call. The backup slot is overwritten: it holds the starting turtle with the pen up, so
  a \<^verbatim>\<open>restore()\<close> after \<^verbatim>\<open>drawTurtle()\<close> gives that, whatever the caller had backed up.
\<close>

theorem drawTurtle_restores_pose:
  "\<exists>s'. drawTurtle s = Inr s' \<and> mainTurtle s' = mainTurtle s \<and>
     backupTurtle s' = (mainTurtle s)\<lparr>pendown := False\<rparr> \<and>
     mainTurtle (restore s') = (mainTurtle s)\<lparr>pendown := False\<rparr>"
proof -
  let ?up = "(mainTurtle s)\<lparr>pendown := False\<rparr>"
  let ?o = "mainTurtle s"
  have p0: "\<not> pendown (mainTurtle (penUp s))" "mainTurtle (penUp s) = ?up"
    by (simp_all add: penUp_def)
  from drawTurtle_leg_pen_up [OF p0(1), of ?o "- 1" "- 1"] p0(2) obtain s1 where s1:
    "drawTurtle_leg ?o (- 1) (- 1) (penUp s) = Inr s1" "mainTurtle s1 = ?up"
    by auto
  then have p1: "\<not> pendown (mainTurtle s1)" by simp
  from drawTurtle_leg_pen_up [OF p1, of ?o "- 1" 1] s1(2) obtain s2 where s2:
    "drawTurtle_leg ?o (- 1) 1 s1 = Inr s2" "mainTurtle s2 = ?up"
    by auto
  then have p2: "\<not> pendown (mainTurtle s2)" by simp
  from drawTurtle_leg_pen_up [OF p2, of ?o 1 "- 1"] s2(2) obtain s3 where s3:
    "drawTurtle_leg ?o 1 (- 1) s2 = Inr s3" "mainTurtle s3 = ?up"
    by auto
  then have p3: "\<not> pendown (mainTurtle s3)" by simp
  from drawTurtle_leg_pen_up [OF p3, of ?o 1 1] s3(2) obtain s4 where s4:
    "drawTurtle_leg ?o 1 1 s3 = Inr s4" "mainTurtle s4 = ?up"
    by auto
  then have p4: "\<not> pendown (mainTurtle s4)" by simp
  from drawTurtle_head_pen_up [OF p4, of ?o] s4(2) obtain s5 where s5:
    "drawTurtle_head ?o s4 = Inr s5" "mainTurtle s5 = ?up"
    by auto
  have "drawTurtle s =
        Inr ((fold (drawTurtle_body ?o) [9, 5, 1] s5)\<lparr>mainTurtle := ?o\<rparr>)"
    by (simp add: drawTurtle_def Let_def seq_def s1(1) s2(1) s3(1) s4(1) s5(1))
  moreover have "backupTurtle (fold (drawTurtle_body ?o) [9, 5, 1] s5) = ?up"
    by (simp add: drawTurtle_body_turtles s5(2))
  ultimately show ?thesis by (simp add: restore_def)
qed


section \<open>Polygon fill: the intercept capacity\<close>

text \<open>
  The scan of one row aborts exactly when the row has 128 intercepts or more, and
  otherwise returns all of them.
\<close>

lemma collect_nodes_spec:
  "length nodeX < 128 \<Longrightarrow>
   collect_nodes y vj vs nodeX =
     (let found = map (\<lambda>(vi, vj). intercept y vi vj)
                    (filter (\<lambda>(vi, vj). crosses y vi vj) (edges_from vj vs))
      in if 128 \<le> length nodeX + length found then Inl TooManyIntercepts
         else Inr (nodeX @ found))"
proof (induction vs arbitrary: vj nodeX)
  case Nil
  then show ?case by simp
next
  case (Cons vi rest)
  show ?case
  proof (cases "crosses y vi vj")
    case False
    with Cons.prems Cons.IH [of nodeX vi] show ?thesis
      by (simp add: MAX_POLYGON_VERTICES_def Let_def)
  next
    case True
    show ?thesis
    proof (cases "length nodeX = 127")
      case True
      with \<open>crosses y vi vj\<close> show ?thesis
        by (simp add: MAX_POLYGON_VERTICES_def Let_def)
    next
      case False
      with Cons.prems have "length (nodeX @ [intercept y vi vj]) < 128" by simp
      from Cons.IH [OF this, of vi] \<open>crosses y vi vj\<close> Cons.prems False show ?thesis
        by (simp add: MAX_POLYGON_VERTICES_def Let_def)
    qed
  qed
qed

lemma row_nodes_spec:
  "row_nodes poly y =
     (if 128 \<le> length (scanline_intercepts poly y) then Inl TooManyIntercepts
      else Inr (scanline_intercepts poly y))"
  using collect_nodes_spec [of "[]" y "last poly" poly]
  by (simp add: row_nodes_def scanline_intercepts_def Let_def)

text \<open>A zigzag of 128 vertices: row 0 has exactly 128 intercepts, and its scan aborts.\<close>

lemma row_nodes_aborts_at_128:
  "length (scanline_intercepts (concat (replicate 64 [(0, - 1), (0, 1)])) 0) = 128 \<and>
   row_nodes (concat (replicate 64 [(0, - 1), (0, 1)])) 0 = Inl TooManyIntercepts"
proof -
  have "length (scanline_intercepts (concat (replicate 64 [(0, - 1), (0, 1)])) 0) = 128"
    by (simp add: scanline_intercepts_def crosses_def eval_nat_numeral)
  then show ?thesis by (simp add: row_nodes_spec)
qed

text \<open>
  The row loop of \<^verbatim>\<open>endFill\<close> starts at \<^verbatim>\<open>y = -(mainFieldHeight / 2)\<close> and tests
  \<^verbatim>\<open>y < mainFieldHeight / 2\<close> in \<^verbatim>\<open>unsigned int\<close>: the test is false at the first row,
  for every height, so no row is scanned.
\<close>

lemma no_first_row: "\<not> (- (h div 2) < h div (2::32 word))"
proof (cases "h div 2 = 0")
  case True then show ?thesis by simp
next
  case False
  have "uint (h div 2) < 2147483648" using uint_lt2p [of h] by (simp add: uint_div)
  with False show ?thesis by (simp add: word_less_alt uint_neg32)
qed

lemma fill_rows_skipped: "fill_rows (- (mainFieldHeight s div 2)) s = Inr s"
  by (subst fill_rows.simps) (simp add: no_first_row)

lemma bmp_line_fatal: "bmp_line s i j line = Inl e \<Longrightarrow> e = BadIndex"
proof (induction s i j line rule: bmp_line.induct)
  case (1 s i j line)
  let ?ipos = "3 * (mainFieldWidth s * i + j)" and ?k = "3 * j"
  let ?g = "0 \<le>s ?ipos \<and> unat ?ipos + 2 < 3 * length (mainTurtleImage s) \<and>
            0 \<le>s ?k \<and> unat ?k + 2 < length line"
  show ?case
  proof (cases "j < mainFieldWidth s")
    case False
    with "1.prems" show ?thesis by (simp add: bmp_line.simps)
  next
    case lt: True
    show ?thesis
    proof (cases ?g)
      case False
      with lt "1.prems" show ?thesis
        by (subst (asm) bmp_line.simps) (auto simp: Let_def)
    next
      case g: True
      from "1.prems" lt g have
        "bmp_line s i (j + 1)
           (line[unat ?k := image_byte (mainTurtleImage s) (unat ?ipos + 2),
                 unat ?k + 1 := image_byte (mainTurtleImage s) (unat ?ipos + 1),
                 unat ?k + 2 := image_byte (mainTurtleImage s) (unat ?ipos)]) = Inl e"
        by (subst (asm) bmp_line.simps) (simp add: Let_def)
      from "1.IH" [OF lt refl refl g this] show ?thesis .
    qed
  qed
qed

lemma bmp_rows_fatal: "bmp_rows s i line = Inl e \<Longrightarrow> e = BadIndex"
proof (induction s i line rule: bmp_rows.induct)
  case (1 s i line)
  show ?case
  proof (cases "i < mainFieldHeight s")
    case False
    with "1.prems" show ?thesis by (simp add: bmp_rows.simps)
  next
    case lt: True
    from "1.prems" lt consider
      (a) "bmp_line s i 0 line = Inl e"
    | (b) line' where "bmp_line s i 0 line = Inr line'" "bmp_rows s (i + 1) line' = Inl e"
      by (subst (asm) bmp_rows.simps) (auto split: sum.splits)
    then show ?thesis
    proof cases
      case a
      then show ?thesis by (rule bmp_line_fatal)
    next
      case b
      from "1.IH" [OF lt b(1) b(2)] show ?thesis .
    qed
  qed
qed

lemma saveBMP_fatal: "saveBMP filename s = Inl e \<Longrightarrow> e \<noteq> TooManyIntercepts"
  by (auto simp: saveBMP_def Let_def split: if_splits sum.splits dest: bmp_rows_fatal)

lemma drawPixel_fatal: "drawPixel x y s = Inl e \<Longrightarrow> e \<noteq> TooManyIntercepts"
  by (auto simp: drawPixel_def saveFrame_def Let_def split: if_splits dest: saveBMP_fatal)

lemma drawLine_horizontal_fatal:
  "drawLine_horizontal absX absY right up x1 x y err s = Inl e \<Longrightarrow> e \<noteq> TooManyIntercepts"
proof (induction absX absY right up x1 x y err s rule: drawLine_horizontal.induct)
  case (1 absX absY right up x1 x y err s)
  let ?y' = "if err - absY <s 0 then y + offset up else y"
  let ?err' = "if err - absY <s 0 then err - absY + absX else err - absY"
  show ?case
  proof (cases "x = x1")
    case True
    with "1.prems" show ?thesis by (simp add: drawLine_horizontal.simps)
  next
    case False
    with "1.prems" consider
      (a) "drawPixel (x + offset right) ?y' s = Inl e"
    | (b) s1 where "drawPixel (x + offset right) ?y' s = Inr s1"
        "drawLine_horizontal absX absY right up x1 (x + offset right) ?y' ?err' s1 = Inl e"
      by (subst (asm) drawLine_horizontal.simps) (auto simp: Let_def split: sum.splits)
    then show ?thesis
    proof cases
      case a
      then show ?thesis by (rule drawPixel_fatal)
    next
      case b
      from "1.IH" [OF False refl refl refl refl b(1) b(2)] show ?thesis .
    qed
  qed
qed

lemma drawLine_vertical_fatal:
  "drawLine_vertical absX absY right up y1 x y err s = Inl e \<Longrightarrow> e \<noteq> TooManyIntercepts"
proof (induction absX absY right up y1 x y err s rule: drawLine_vertical.induct)
  case (1 absX absY right up y1 x y err s)
  let ?x' = "if err - absX <s 0 then x + offset right else x"
  let ?err' = "if err - absX <s 0 then err - absX + absY else err - absX"
  show ?case
  proof (cases "y = y1")
    case True
    with "1.prems" show ?thesis by (simp add: drawLine_vertical.simps)
  next
    case False
    with "1.prems" consider
      (a) "drawPixel ?x' (y + offset up) s = Inl e"
    | (b) s1 where "drawPixel ?x' (y + offset up) s = Inr s1"
        "drawLine_vertical absX absY right up y1 ?x' (y + offset up) ?err' s1 = Inl e"
      by (subst (asm) drawLine_vertical.simps) (auto simp: Let_def split: sum.splits)
    then show ?thesis
    proof cases
      case a
      then show ?thesis by (rule drawPixel_fatal)
    next
      case b
      from "1.IH" [OF False refl refl refl refl b(1) b(2)] show ?thesis .
    qed
  qed
qed

lemma drawLine_fatal: "drawLine x0 y0 x1 y1 s = Inl e \<Longrightarrow> e \<noteq> TooManyIntercepts"
  by (auto simp: drawLine_def Let_def split: sum.splits if_splits
      dest: drawPixel_fatal drawLine_horizontal_fatal drawLine_vertical_fatal)

lemma redraw_polygon_fatal: "redraw_polygon poly i s = Inl e \<Longrightarrow> e \<noteq> TooManyIntercepts"
proof (induction poly i s rule: redraw_polygon.induct)
  case (1 poly i s)
  let ?line = "drawLine (double_to_int (c_round (fst (poly ! i))))
         (double_to_int (c_round (snd (poly ! i))))
         (double_to_int (c_round (fst (poly ! ((i + 1) mod length poly)))))
         (double_to_int (c_round (snd (poly ! ((i + 1) mod length poly))))) s"
  show ?case
  proof (cases "i < length poly")
    case False
    with "1.prems" show ?thesis by (simp add: redraw_polygon.simps)
  next
    case True
    with "1.prems" consider
      (a) "?line = Inl e"
    | (b) s1 where "?line = Inr s1" "redraw_polygon poly (i + 1) s1 = Inl e"
      by (subst (asm) redraw_polygon.simps) (auto simp: Let_def split: sum.splits)
    then show ?thesis
    proof cases
      case a
      then show ?thesis by (rule drawLine_fatal)
    next
      case b
      from "1.IH" [OF True refl refl b(1) b(2)] show ?thesis .
    qed
  qed
qed

lemma endFill_never_overflows: "endFill s \<noteq> Inl TooManyIntercepts"
  by (auto simp: endFill_def seq_def fill_rows_skipped Let_def dest: redraw_polygon_fatal)

text \<open>With video frames off, nothing in \<^verbatim>\<open>endFill\<close> can end the process: it returns.\<close>

lemma drawPixel_no_video:
  "\<not> mainFieldSaveFrames s \<Longrightarrow> \<exists>s'. drawPixel x y s = Inr s' \<and> \<not> mainFieldSaveFrames s'"
  by (simp add: drawPixel_def Let_def)

lemma drawLine_horizontal_no_video:
  "\<not> mainFieldSaveFrames s \<Longrightarrow>
   \<exists>s'. drawLine_horizontal absX absY right up x1 x y err s = Inr s' \<and> \<not> mainFieldSaveFrames s'"
proof (induction absX absY right up x1 x y err s rule: drawLine_horizontal.induct)
  case (1 absX absY right up x1 x y err s)
  let ?y' = "if err - absY <s 0 then y + offset up else y"
  let ?err' = "if err - absY <s 0 then err - absY + absX else err - absY"
  show ?case
  proof (cases "x = x1")
    case True
    with "1.prems" show ?thesis by (simp add: drawLine_horizontal.simps)
  next
    case False
    from drawPixel_no_video [OF "1.prems", of "x + offset right" ?y'] obtain s1 where s1:
      "drawPixel (x + offset right) ?y' s = Inr s1" "\<not> mainFieldSaveFrames s1"
      by blast
    from "1.IH" [OF False refl refl refl refl s1] obtain s' where
      "drawLine_horizontal absX absY right up x1 (x + offset right) ?y' ?err' s1 = Inr s'"
      "\<not> mainFieldSaveFrames s'"
      by blast
    with False s1(1) show ?thesis
      by (subst drawLine_horizontal.simps) (simp add: Let_def)
  qed
qed

lemma drawLine_vertical_no_video:
  "\<not> mainFieldSaveFrames s \<Longrightarrow>
   \<exists>s'. drawLine_vertical absX absY right up y1 x y err s = Inr s' \<and> \<not> mainFieldSaveFrames s'"
proof (induction absX absY right up y1 x y err s rule: drawLine_vertical.induct)
  case (1 absX absY right up y1 x y err s)
  let ?x' = "if err - absX <s 0 then x + offset right else x"
  let ?err' = "if err - absX <s 0 then err - absX + absY else err - absX"
  show ?case
  proof (cases "y = y1")
    case True
    with "1.prems" show ?thesis by (simp add: drawLine_vertical.simps)
  next
    case False
    from drawPixel_no_video [OF "1.prems", of ?x' "y + offset up"] obtain s1 where s1:
      "drawPixel ?x' (y + offset up) s = Inr s1" "\<not> mainFieldSaveFrames s1"
      by blast
    from "1.IH" [OF False refl refl refl refl s1] obtain s' where
      "drawLine_vertical absX absY right up y1 ?x' (y + offset up) ?err' s1 = Inr s'"
      "\<not> mainFieldSaveFrames s'"
      by blast
    with False s1(1) show ?thesis
      by (subst drawLine_vertical.simps) (simp add: Let_def)
  qed
qed

lemma drawLine_no_video:
  assumes "\<not> mainFieldSaveFrames s"
  shows "\<exists>s'. drawLine x0 y0 x1 y1 s = Inr s' \<and> \<not> mainFieldSaveFrames s'"
proof -
  from drawPixel_no_video [OF assms, of x0 y0] obtain s1 where s1:
    "drawPixel x0 y0 s = Inr s1" "\<not> mainFieldSaveFrames s1"
    by blast
  with drawLine_horizontal_no_video [OF s1(2)] drawLine_vertical_no_video [OF s1(2)]
  show ?thesis by (simp add: drawLine_def Let_def)
qed

lemma redraw_polygon_no_video:
  "\<not> mainFieldSaveFrames s \<Longrightarrow>
   \<exists>s'. redraw_polygon poly i s = Inr s' \<and> \<not> mainFieldSaveFrames s'"
proof (induction poly i s rule: redraw_polygon.induct)
  case (1 poly i s)
  show ?case
  proof (cases "i < length poly")
    case False
    with "1.prems" show ?thesis by (simp add: redraw_polygon.simps)
  next
    case True
    from drawLine_no_video [OF "1.prems"] obtain s1 where s1:
      "drawLine (double_to_int (c_round (fst (poly ! i))))
         (double_to_int (c_round (snd (poly ! i))))
         (double_to_int (c_round (fst (poly ! ((i + 1) mod length poly)))))
         (double_to_int (c_round (snd (poly ! ((i + 1) mod length poly))))) s = Inr s1"
      "\<not> mainFieldSaveFrames s1"
      by blast
    from "1.IH" [OF True refl refl s1] obtain s' where
      "redraw_polygon poly (i + 1) s1 = Inr s'" "\<not> mainFieldSaveFrames s'"
      by blast
    with True s1(1) show ?thesis
      by (subst redraw_polygon.simps) (simp add: Let_def)
  qed
qed

lemma endFill_returns:
  assumes "\<not> mainFieldSaveFrames s"
  shows "\<exists>s'. endFill s = Inr s'"
proof -
  let ?s2 = "s\<lparr>mainTurtle := (mainTurtle s)\<lparr>filled := False\<rparr>\<rparr>"
  from assms have "\<not> mainFieldSaveFrames ?s2" by simp
  from redraw_polygon_no_video [OF this, of "mainTurtlePoly ?s2" 0]
  show ?thesis by (auto simp: endFill_def seq_def fill_rows_skipped Let_def)
qed

text \<open>
  Every edge gives at most one intercept, so a stored polygon, which has at most 128
  vertices, never has more than 128 intercepts on a row; the scan of a row aborts as
  soon as 128 are collected.
\<close>

lemma scanline_intercepts_bound: "length (scanline_intercepts poly y) \<le> length poly"
proof -
  have "length (edges_from vj vs) = length vs" for vj vs
    by (induction vs arbitrary: vj) simp_all
  then have "length (filter (\<lambda>(vi, vj). crosses y vi vj) (edges_from (last poly) poly)) \<le> length poly"
    by (metis length_filter_le)
  then show ?thesis by (simp add: scanline_intercepts_def)
qed












section \<open>Bitmap encoder: save and parse back\<close>

lemma u32_at_le32: "u32_at (pre @ le32 x @ post) (length pre) = x"
  apply (simp add: u32_at_def le32_def nth_append)
  apply (rule bit_word_eqI)
  apply (auto simp: bit_or_iff bit_push_bit_iff bit_ucast_iff bit_drop_bit_eq bit_simps)
  subgoal for n by (cases "24 \<le> n") simp_all
  done

lemma u16_at_le16: "u16_at (pre @ le16 x @ post) (length pre) = x"
  apply (simp add: u16_at_def le16_def nth_append)
  apply (rule bit_word_eqI)
  apply (auto simp: bit_or_iff bit_push_bit_iff bit_ucast_iff bit_drop_bit_eq bit_simps)
  done

lemma nonneg32: "unat (x :: 32 word) < 2147483648 \<Longrightarrow> 0 \<le>s x"
proof -
  assume "unat x < 2147483648"
  then have "uint x < 2147483648"
    by (metis of_nat_less_iff of_nat_numeral uint_nat)
  moreover have "- 2147483648 \<le> uint x"
    using uint_ge_0 [of x] by linarith
  ultimately have "uint x < 2 ^ 31" "- (2 ^ 31) \<le> uint x" by simp_all
  then have "signed_take_bit 31 (uint x) = uint x"
    by (intro signed_take_bit_int_eq_self)
  then have "sint x = uint x" by (simp add: sint_uint)
  then show ?thesis by (simp add: word_sle_eq)
qed

lemma unat_mult32: "unat a * unat b < 4294967296 \<Longrightarrow> unat (a * b :: 32 word) = unat a * unat b"
  using unat_mult_lem [of a b] by simp

lemma unat_add32: "unat a + unat b < 4294967296 \<Longrightarrow> unat (a + b :: 32 word) = unat a + unat b"
  using unat_add_lem [of a b] by simp

lemma unat_pixel_offset:
  assumes "unat w * unat i + unat j < n" "3 * n < 2147483648"
  shows "unat (3 * (w * i + j) :: 32 word) = 3 * (unat w * unat i + unat j)"
proof -
  from assms have b: "unat w * unat i + unat j < 715827883" by linarith
  then have "unat w * unat i < 4294967296" by linarith
  then have 1: "unat (w * i) = unat w * unat i" by (rule unat_mult32)
  from b have "unat (w * i) + unat j < 4294967296" unfolding 1 by linarith
  then have 2: "unat (w * i + j) = unat w * unat i + unat j" unfolding 1 [symmetric] by (rule unat_add32)
  have "unat (3 :: 32 word) * unat (w * i + j) < 4294967296" using b unfolding 2 by simp
  then have "unat (3 * (w * i + j)) = unat (3 :: 32 word) * unat (w * i + j)" by (rule unat_mult32)
  then show ?thesis unfolding 2 by simp
qed

lemma unat_triple:
  assumes "unat j < n" "3 * n < 2147483648"
  shows "unat (3 * j :: 32 word) = 3 * unat j"
proof -
  from assms have "unat (3 :: 32 word) * unat j < 4294967296" by simp
  then have "unat (3 * j) = unat (3 :: 32 word) * unat j" by (rule unat_mult32)
  then show ?thesis by simp
qed


lemma triple_less: "(m :: nat) < n \<Longrightarrow> 3 * n < b \<Longrightarrow> 3 * m < b"
  by linarith

lemma triple_less2: "(m :: nat) < n \<Longrightarrow> 3 * m + 2 < 3 * n"
  by linarith

lemma div3_Suc:
  "Suc (3 * n) div 3 = n" "Suc (3 * n) mod 3 = 1"
  "Suc (Suc (3 * n)) div 3 = n" "Suc (Suc (3 * n)) mod 3 = 2"
  by presburger+

lemma bmp_line_nth:
  assumes "unat (mainFieldWidth s) * (unat i + 1) \<le> length (mainTurtleImage s)"
    and "3 * length (mainTurtleImage s) < 2147483648"
    and "3 * unat (mainFieldWidth s) \<le> length line"
  shows "\<exists>line'. bmp_line s i j line = Inr line' \<and> length line' = length line \<and>
     (\<forall>k < length line. line' ! k =
        (if 3 * unat j \<le> k \<and> k < 3 * unat (mainFieldWidth s)
         then image_byte (mainTurtleImage s)
                (3 * (unat (mainFieldWidth s) * unat i + k div 3) + (2 - k mod 3))
         else line ! k))"
  using assms
proof (induction s i j line rule: bmp_line.induct)
  case (1 s i j line)
  let ?W = "unat (mainFieldWidth s)" and ?I = "unat i" and ?J = "unat j"
  let ?img = "mainTurtleImage s"
  show ?case
  proof (cases "j < mainFieldWidth s")
    case False
    then have "\<not> ?J < ?W" by (simp add: word_less_nat_alt)
    with False show ?thesis by (subst bmp_line.simps) auto
  next
    case lt: True
    then have J: "?J < ?W" by (simp add: word_less_nat_alt)
    let ?ipos = "3 * (mainFieldWidth s * i + j)" and ?k = "3 * j"
    have "?W * (?I + 1) = ?W * ?I + ?W" by (simp add: algebra_simps)
    with J "1.prems"(1) have n: "?W * ?I + ?J < length ?img" by linarith
    have u1: "unat ?ipos = 3 * (?W * ?I + ?J)"
      using n "1.prems"(2) by (rule unat_pixel_offset)
    from n J have "?J < length ?img" 
      by (metis "1.prems"(1) \<open>?W * (?I + 1) = ?W * ?I + ?W\<close> add_leD2 less_le_trans)
    then have u2: "unat ?k = 3 * ?J"
      using "1.prems"(2) by (rule unat_triple)
    have "unat ?ipos < 2147483648"
      unfolding u1 using n "1.prems"(2) by (rule triple_less)
    moreover have "unat ?k < 2147483648"
      unfolding u2 using \<open>?J < length ?img\<close> "1.prems"(2) by (rule triple_less)
    ultimately have s: "0 \<le>s ?ipos" "0 \<le>s ?k" by (simp_all add: nonneg32)
    have "unat ?ipos + 2 < 3 * length ?img"
      unfolding u1 using n by (rule triple_less2)
    moreover have "unat ?k + 2 < length line"
      unfolding u2 using triple_less2 [OF J] "1.prems"(3) by linarith
    ultimately have g: "0 \<le>s ?ipos \<and> unat ?ipos + 2 < 3 * length ?img \<and>
             0 \<le>s ?k \<and> unat ?k + 2 < length line"
      using s by simp
    let ?line2 = "line[unat ?k := image_byte ?img (unat ?ipos + 2),
                       unat ?k + 1 := image_byte ?img (unat ?ipos + 1),
                       unat ?k + 2 := image_byte ?img (unat ?ipos)]"
    have len2: "3 * ?W \<le> length ?line2" using "1.prems"(3) by simp
    from "1.IH" [OF lt refl refl g "1.prems"(1,2) len2] obtain line' where l:
      "bmp_line s i (j + 1) ?line2 = Inr line'" "length line' = length ?line2"
      "\<forall>k < length ?line2. line' ! k =
        (if 3 * unat (j + 1) \<le> k \<and> k < 3 * ?W
         then image_byte ?img (3 * (?W * ?I + k div 3) + (2 - k mod 3))
         else ?line2 ! k)"
      by blast
    have uj: "unat (j + 1) = Suc ?J" using lt by (rule unat_Suc_less)
    have e: "bmp_line s i j line = Inr line'"
      using lt g l(1) by (subst bmp_line.simps) (simp add: Let_def)
    define p q where "p = unat ?ipos" and "q = unat ?k"
    have p: "p = 3 * (?W * ?I + ?J)" and q: "q = 3 * ?J"
      by (simp_all only: p_def q_def u1 u2)
    have l3: "\<forall>k < length line. line' ! k =
        (if 3 * Suc ?J \<le> k \<and> k < 3 * ?W
         then image_byte ?img (3 * (?W * ?I + k div 3) + (2 - k mod 3))
         else line[q := image_byte ?img (p + 2), q + 1 := image_byte ?img (p + 1),
                   q + 2 := image_byte ?img p] ! k)"
      using l(3) unfolding p_def q_def uj length_list_update .
    have "line' ! k =
        (if 3 * ?J \<le> k \<and> k < 3 * ?W
         then image_byte ?img (3 * (?W * ?I + k div 3) + (2 - k mod 3))
         else line ! k)" if k: "k < length line" for k
    proof -
      from l3 k have v: "line' ! k =
        (if 3 * Suc ?J \<le> k \<and> k < 3 * ?W
         then image_byte ?img (3 * (?W * ?I + k div 3) + (2 - k mod 3))
         else line[q := image_byte ?img (p + 2), q + 1 := image_byte ?img (p + 1),
                   q + 2 := image_byte ?img p] ! k)"
        by blast
      consider "k < 3 * ?J" | "k = 3 * ?J" | "k = 3 * ?J + 1" | "k = 3 * ?J + 2"
        | "3 * ?J + 3 \<le> k" by linarith
      then show ?thesis
      proof cases
        case 1
        with v k show ?thesis by (simp add: p q)
      next
        case 2
        with v k J show ?thesis by (simp add: p q)
      next
        case 3
        with v k J show ?thesis by (simp add: p q div3_Suc)
      next
        case 4
        with v k J show ?thesis by (simp add: p q div3_Suc)
      next
        case 5
        with v k show ?thesis by (simp add: p q)
      qed
    qed
    with e l(2) show ?thesis by simp
  qed
qed


lemma bmp_line_row:
  assumes "unat (mainFieldWidth s) * (unat i + 1) \<le> length (mainTurtleImage s)"
    and "3 * length (mainTurtleImage s) < 2147483648"
    and "3 * unat (mainFieldWidth s) \<le> length line"
    and "\<forall>k. 3 * unat (mainFieldWidth s) \<le> k \<and> k < length line \<longrightarrow> line ! k = 0"
  shows "bmp_line s i 0 line =
     Inr (bmp_row (mainTurtleImage s) (unat (mainFieldWidth s)) (length line) (unat i))"
proof -
  from bmp_line_nth [OF assms(1-3), of 0] obtain line' where l:
    "bmp_line s i 0 line = Inr line'" "length line' = length line"
    "\<forall>k < length line. line' ! k =
        (if k < 3 * unat (mainFieldWidth s)
         then image_byte (mainTurtleImage s)
                (3 * (unat (mainFieldWidth s) * unat i + k div 3) + (2 - k mod 3))
         else line ! k)"
    by auto
  have "line' = bmp_row (mainTurtleImage s) (unat (mainFieldWidth s)) (length line) (unat i)"
  proof (rule nth_equalityI)
    show "length line' =
      length (bmp_row (mainTurtleImage s) (unat (mainFieldWidth s)) (length line) (unat i))"
      by (simp add: bmp_row_def l(2))
  next
    fix k assume "k < length line'"
    then have k: "k < length line" by (simp add: l(2))
    with l(3) assms(4) show "line' ! k =
      bmp_row (mainTurtleImage s) (unat (mainFieldWidth s)) (length line) (unat i) ! k"
      by (simp add: bmp_row_def)
  qed
  with l(1) show ?thesis by simp
qed

lemma bmp_rows_concat:
  assumes "unat (mainFieldWidth s) * unat (mainFieldHeight s) \<le> length (mainTurtleImage s)"
    and "3 * length (mainTurtleImage s) < 2147483648"
    and "3 * unat (mainFieldWidth s) \<le> length line"
    and "\<forall>k. 3 * unat (mainFieldWidth s) \<le> k \<and> k < length line \<longrightarrow> line ! k = 0"
  shows "bmp_rows s i line =
     Inr (concat (map (bmp_row (mainTurtleImage s) (unat (mainFieldWidth s)) (length line))
                      [unat i ..< unat (mainFieldHeight s)]))"
  using assms
proof (induction s i line rule: bmp_rows.induct)
  case (1 s i line)
  let ?W = "unat (mainFieldWidth s)" and ?H = "unat (mainFieldHeight s)" and ?I = "unat i"
  let ?img = "mainTurtleImage s"
  show ?case
  proof (cases "i < mainFieldHeight s")
    case False
    then have "\<not> ?I < ?H" by (simp add: word_less_nat_alt)
    with False show ?thesis by (subst bmp_rows.simps) simp
  next
    case lt: True
    then have I: "?I < ?H" by (simp add: word_less_nat_alt)
    then have "?W * (?I + 1) \<le> ?W * ?H" by (intro mult_le_mono2) simp
    with "1.prems"(1) have r: "?W * (?I + 1) \<le> length ?img" by linarith
    let ?line' = "bmp_row ?img ?W (length line) ?I"
    have b: "bmp_line s i 0 line = Inr ?line'"
      using r "1.prems"(2,3,4) by (rule bmp_line_row)
    have len: "length ?line' = length line" by (simp add: bmp_row_def)
    have pad: "\<forall>k. 3 * ?W \<le> k \<and> k < length ?line' \<longrightarrow> ?line' ! k = 0"
      by (simp add: bmp_row_def)
    have "3 * ?W \<le> length ?line'" using "1.prems"(3) len by simp
    from "1.IH" [OF lt b "1.prems"(1,2) this pad]
    have rest: "bmp_rows s (i + 1) ?line' =
      Inr (concat (map (bmp_row ?img ?W (length line)) [Suc ?I ..< ?H]))"
      by (simp add: len unat_Suc_less [OF lt])
    have "[?I ..< ?H] = ?I # [Suc ?I ..< ?H]" using I by (rule upt_conv_Cons)
    with lt b rest show ?thesis by (subst bmp_rows.simps) simp
  qed
qed

lemma length_concat_rows:
  "(\<And>i. i < H \<Longrightarrow> length (f i) = n) \<Longrightarrow> length (concat (map f [0..<H])) = H * n"
  by (induction H) simp_all

lemma nth_concat_rows:
  "(\<And>i. i < H \<Longrightarrow> length (f i) = n) \<Longrightarrow> i < H \<Longrightarrow> k < n \<Longrightarrow>
   concat (map f [0..<H]) ! (i * n + k) = f i ! k"
proof (induction H)
  case 0
  then show ?case by simp
next
  case (Suc H)
  have len: "length (concat (map f [0..<H])) = H * n"
    using Suc.prems(1) by (intro length_concat_rows) simp
  show ?case
  proof (cases "i < H")
    case True
    then have "i * n + k < H * n"
      using Suc.prems(3) by (metis add.commute mult.commute less_Suc_eq_le mult_Suc mult_le_mono1 add_less_le_mono Suc_leI nat_add_left_cancel_less mult_Suc_right)
    with True Suc show ?thesis by (simp add: nth_append len)
  next
    case False
    with Suc.prems(2) have "i = H" by simp
    with Suc.prems show ?thesis by (simp add: nth_append len)
  qed
qed


lemma image_byte_channels:
  "image_byte img (3 * n) = red (img ! n)"
  "image_byte img (3 * n + 1) = green (img ! n)"
  "image_byte img (3 * n + 2) = blue (img ! n)"
  by (simp_all add: image_byte_def div3_Suc)

lemma bmp_row_pixel:
  assumes "j < W" "3 * W \<le> stride"
  shows "bmp_row img W stride i ! (3 * j) = blue (img ! (W * i + j))"
    and "bmp_row img W stride i ! (3 * j + 1) = green (img ! (W * i + j))"
    and "bmp_row img W stride i ! (3 * j + 2) = red (img ! (W * i + j))"
proof -
  from assms have b: "3 * j < stride" "3 * j + 1 < stride" "3 * j + 2 < stride"
    "3 * j < 3 * W" "3 * j + 1 < 3 * W" "3 * j + 2 < 3 * W"
    by linarith+
  show "bmp_row img W stride i ! (3 * j) = blue (img ! (W * i + j))"
    using b image_byte_channels(3) [of img "W * i + j"] by (simp add: bmp_row_def)
  show "bmp_row img W stride i ! (3 * j + 1) = green (img ! (W * i + j))"
    using b image_byte_channels(2) [of img "W * i + j"] by (simp add: bmp_row_def div3_Suc)
  show "bmp_row img W stride i ! (3 * j + 2) = red (img ! (W * i + j))"
    using b image_byte_channels(1) [of img "W * i + j"] by (simp add: bmp_row_def div3_Suc)
qed

lemma parse_pixels_rows:
  assumes "length img = W * H"
  shows "parse_pixels W H (concat (map (bmp_row img W ((3 * W + 3) div 4 * 4)) [0..<H])) = img"
proof -
  let ?stride = "(3 * W + 3) div 4 * 4"
  let ?data = "concat (map (bmp_row img W ?stride) [0..<H])"
  let ?px = "\<lambda>i j. \<lparr>red = ?data ! (i * ?stride + 3 * j + 2),
                       green = ?data ! (i * ?stride + 3 * j + 1),
                       blue = ?data ! (i * ?stride + 3 * j)\<rparr>"
  have stride: "3 * W \<le> ?stride" by presburger
  have rowlen: "length (bmp_row img W ?stride i) = ?stride" for i
    by (simp add: bmp_row_def)
  have px: "?px i j = img ! (W * i + j)" if "i < H" "j < W" for i j
  proof -
    from that(2) stride have b: "3 * j < ?stride" "3 * j + 1 < ?stride" "3 * j + 2 < ?stride"
      by linarith+
    have d: "?data ! (i * ?stride + k) = bmp_row img W ?stride i ! k" if "k < ?stride" for k
      using rowlen \<open>i < H\<close> that by (rule nth_concat_rows)
    have "?data ! (i * ?stride + (3 * j)) = bmp_row img W ?stride i ! (3 * j)"
      "?data ! (i * ?stride + (3 * j + 1)) = bmp_row img W ?stride i ! (3 * j + 1)"
      "?data ! (i * ?stride + (3 * j + 2)) = bmp_row img W ?stride i ! (3 * j + 2)"
      using b by (simp_all only: d)
    then show ?thesis
      using bmp_row_pixel [OF that(2) stride, of img i] by (simp add: add.assoc)
  qed
  let ?rows = "\<lambda>i. map (?px i) [0..<W]"
  have plen: "length (concat (map ?rows [0..<H])) = H * W"
    by (intro length_concat_rows) simp
  have "concat (map ?rows [0..<H]) = img"
  proof (rule nth_equalityI)
    show "length (concat (map ?rows [0..<H])) = length img"
      using plen assms by (simp add: mult.commute)
  next
    fix m assume "m < length (concat (map ?rows [0..<H]))"
    then have m: "m < H * W" by (simp only: plen)
    then have W: "0 < W" by (cases W) simp_all
    let ?i = "m div W" and ?j = "m mod W"
    have i: "?i < H" using m W by (simp add: less_mult_imp_div_less)
    have j: "?j < W" using W by simp
    have "concat (map ?rows [0..<H]) ! (?i * W + ?j) = ?rows ?i ! ?j"
      using i j by (intro nth_concat_rows) simp_all
    also have "\<dots> = ?px ?i ?j" using j by simp
    also have "\<dots> = img ! (W * ?i + ?j)" using i j by (rule px)
    finally show "concat (map ?rows [0..<H]) ! m = img ! m"
      by (simp add: mult.commute)
  qed
  then show ?thesis by (simp add: parse_pixels_def Let_def)
qed


lemma length_le32 [simp]: "length (le32 x) = 4"
  by (simp add: le32_def)

lemma length_le16 [simp]: "length (le16 x) = 2"
  by (simp add: le16_def)

lemma length_bmp_header [simp]: "length (bmp_header w h b) = 54"
  by (simp add: bmp_header_def)

lemma bmp_header_fields:
  "u32_at (bmp_header w h b @ rows) 10 = 54"
  "u32_at (bmp_header w h b @ rows) 18 = w"
  "u32_at (bmp_header w h b @ rows) 22 = h"
  "u16_at (bmp_header w h b @ rows) 28 = 24"
  "u32_at (bmp_header w h b @ rows) 30 = 0"
proof -
  let ?a = "[0x42, 0x4D] @ le32 (54 + b * h) @ le32 0"
  let ?b = "?a @ le32 54 @ le32 40"
  let ?c = "?b @ le32 w @ le32 h @ le16 1"
  let ?tail = "le32 (b * h) @ le32 0 @ le32 0 @ le32 0 @ le32 0 @ rows"
  show "u32_at (bmp_header w h b @ rows) 10 = 54"
    using u32_at_le32 [of ?a 54 "le32 40 @ le32 w @ le32 h @ le16 1 @ le16 24 @ le32 0 @ ?tail"]
    by (simp add: bmp_header_def)
  show "u32_at (bmp_header w h b @ rows) 18 = w"
    using u32_at_le32 [of ?b w "le32 h @ le16 1 @ le16 24 @ le32 0 @ ?tail"]
    by (simp add: bmp_header_def)
  show "u32_at (bmp_header w h b @ rows) 22 = h"
    using u32_at_le32 [of "?b @ le32 w" h "le16 1 @ le16 24 @ le32 0 @ ?tail"]
    by (simp add: bmp_header_def)
  show "u16_at (bmp_header w h b @ rows) 28 = 24"
    using u16_at_le16 [of ?c 24 "le32 0 @ ?tail"]
    by (simp add: bmp_header_def)
  show "u32_at (bmp_header w h b @ rows) 30 = 0"
    using u32_at_le32 [of "?c @ le16 24" 0 ?tail]
    by (simp add: bmp_header_def)
qed

lemma unat_bytesPerLine:
  assumes "3 * unat w < 2147483648"
  shows "unat ((3 * (w + 1) div 4) * 4 :: 32 word) = (3 * unat w + 3) div 4 * 4"
proof -
  have "unat w + unat (1 :: 32 word) < 4294967296" using assms by simp
  then have 1: "unat (w + 1) = unat w + 1" using unat_add32 [of w 1] by simp
  have "unat (3 :: 32 word) * unat (w + 1) < 4294967296" using assms by (simp add: 1)
  then have 2: "unat (3 * (w + 1)) = 3 * unat w + 3" using unat_mult32 [of 3 "w + 1"] by (simp add: 1)
  have 3: "unat (3 * (w + 1) div 4) = (3 * unat w + 3) div 4"
    unfolding unat_div 2 by simp
  have "(3 * unat w + 3) div 4 * 4 \<le> 3 * unat w + 3" by presburger
  with assms have b4: "(3 * unat w + 3) div 4 * 4 < 4294967296" by linarith
  have "unat (3 * (w + 1) div 4) * unat (4 :: 32 word) < 4294967296"
    unfolding 3 using b4 by simp
  then have "unat (3 * (w + 1) div 4 * 4) = unat (3 * (w + 1) div 4) * unat (4 :: 32 word)"
    by (rule unat_mult32)
  then show ?thesis unfolding 3 by simp
qed

text \<open>
  Claim C7. \<^verbatim>\<open>saveBMP\<close> writes a file whose header records the width, the height, bit
  depth 24 and compression 0, and whose pixel rows (padded to a multiple of 4 bytes,
  blue, green, red), parsed back, are the pixel buffer. The file can be opened, the line
  buffer allocated, the buffer holds width x height pixels, and its 3 bytes per pixel
  stay below \<open>2^31\<close>, the range of the \<^verbatim>\<open>int\<close> offset \<^verbatim>\<open>ipos\<close>.
\<close>

theorem saveBMP_roundtrip:
  assumes "fopen_ok s filename"
    and "malloc_ok s (unat ((3 * (mainFieldWidth s + 1) div 4) * 4))"
    and "length (mainTurtleImage s) = unat (mainFieldWidth s) * unat (mainFieldHeight s)"
    and "3 * length (mainTurtleImage s) < 2147483648"
  shows "\<exists>s' bytes. saveBMP filename s = Inr s' \<and>
     written s' = written s @ [(filename, bytes)] \<and>
     parseBMP bytes = (mainFieldWidth s, mainFieldHeight s, 24, 0, mainTurtleImage s)"
proof -
  let ?w = "mainFieldWidth s" and ?h = "mainFieldHeight s" and ?img = "mainTurtleImage s"
  let ?W = "unat ?w" and ?H = "unat ?h"
  let ?bpl = "(3 * (?w + 1) div 4) * 4"
  let ?line = "replicate (unat ?bpl) (0 :: 8 word)"
  let ?rows = "concat (map (bmp_row ?img ?W (unat ?bpl)) [0..<?H])"
  let ?bytes = "bmp_header ?w ?h ?bpl @ ?rows"
  have px: "parse_pixels ?W ?H ?rows = ?img"
  proof (cases "?H = 0")
    case True
    with assms(3) show ?thesis by (simp add: parse_pixels_def)
  next
    case False
    then have "?W \<le> ?W * ?H" by simp
    with assms(3,4) have "3 * ?W < 2147483648" by linarith
    then have "unat ?bpl = (3 * ?W + 3) div 4 * 4" by (rule unat_bytesPerLine)
    with parse_pixels_rows [OF assms(3)] show ?thesis by simp
  qed
  have rows: "bmp_rows s 0 ?line = Inr ?rows"
  proof (cases "?H = 0")
    case True
    then have "\<not> 0 < ?h" by (simp add: word_less_nat_alt)
    with True show ?thesis by (subst bmp_rows.simps) simp
  next
    case False
    then have "?W \<le> ?W * ?H" by simp
    with assms(3,4) have small: "3 * ?W < 2147483648" by linarith
    then have "unat ?bpl = (3 * ?W + 3) div 4 * 4" by (rule unat_bytesPerLine)
    moreover have "3 * ?W \<le> (3 * ?W + 3) div 4 * 4" by presburger
    ultimately have len: "3 * ?W \<le> length ?line" by simp
    have pad: "\<forall>k. 3 * ?W \<le> k \<and> k < length ?line \<longrightarrow> ?line ! k = 0" by simp
    have "?W * ?H \<le> length ?img" using assms(3) by simp
    from bmp_rows_concat [OF this assms(4) len pad, of 0] show ?thesis by simp
  qed
  have "saveBMP filename s = Inr (s\<lparr>written := written s @ [(filename, ?bytes)]\<rparr>)"
    using assms(1,2) rows by (simp add: saveBMP_def Let_def)
  moreover have "parseBMP ?bytes = (?w, ?h, 24, 0, ?img)"
    using px by (simp add: parseBMP_def Let_def bmp_header_fields)
  ultimately show ?thesis by simp
qed


text \<open>A 2 x 2 engine with one pixel filled, saved to \<^verbatim>\<open>out.bmp\<close>.\<close>

theorem saveBMP_roundtrip_witness:
  "\<exists>s0 s' bytes. Turtle 2 2 (\<lambda>_. True) (\<lambda>_. True) = Inr s0 \<and>
     fopen_ok (fillPixel 0 0 s0) ''out.bmp'' \<and>
     length (mainTurtleImage (fillPixel 0 0 s0)) =
       unat (mainFieldWidth (fillPixel 0 0 s0)) * unat (mainFieldHeight (fillPixel 0 0 s0)) \<and>
     3 * length (mainTurtleImage (fillPixel 0 0 s0)) < 2147483648 \<and>
     saveBMP ''out.bmp'' (fillPixel 0 0 s0) = Inr s' \<and>
     written s' = [(''out.bmp'', bytes)] \<and>
     parseBMP bytes =
       (2, 2, 24, 0, (replicate 4 white)[3 := \<lparr>red = 0, green = 255, blue = 0\<rparr>])"
proof -
  have "\<exists>s0. Turtle 2 2 (\<lambda>_. True) (\<lambda>_. True) = Inr s0 \<and>
     fopen_ok (fillPixel 0 0 s0) ''out.bmp'' \<and>
     malloc_ok (fillPixel 0 0 s0) (unat ((3 * (mainFieldWidth (fillPixel 0 0 s0) + 1) div 4) * 4)) \<and>
     mainFieldWidth (fillPixel 0 0 s0) = 2 \<and> mainFieldHeight (fillPixel 0 0 s0) = 2 \<and>
     written (fillPixel 0 0 s0) = [] \<and>
     mainTurtleImage (fillPixel 0 0 s0) =
       (replicate 4 white)[3 := \<lparr>red = 0, green = 255, blue = 0\<rparr>]"
    by (simp add: Turtle_def Let_def backup_def reset_def fillPixel_def pixel_index_def
        word_sle_eq)
  then obtain s0 where s0:
    "Turtle 2 2 (\<lambda>_. True) (\<lambda>_. True) = Inr s0"
    "fopen_ok (fillPixel 0 0 s0) ''out.bmp''"
    "malloc_ok (fillPixel 0 0 s0) (unat ((3 * (mainFieldWidth (fillPixel 0 0 s0) + 1) div 4) * 4))"
    "mainFieldWidth (fillPixel 0 0 s0) = 2" "mainFieldHeight (fillPixel 0 0 s0) = 2"
    "written (fillPixel 0 0 s0) = []"
    "mainTurtleImage (fillPixel 0 0 s0) =
       (replicate 4 white)[3 := \<lparr>red = 0, green = 255, blue = 0\<rparr>]"
    by blast
  have len: "length (mainTurtleImage (fillPixel 0 0 s0)) =
       unat (mainFieldWidth (fillPixel 0 0 s0)) * unat (mainFieldHeight (fillPixel 0 0 s0))"
    using s0(4,5,7) by simp
  have small: "3 * length (mainTurtleImage (fillPixel 0 0 s0)) < 2147483648"
    using s0(7) by simp
  from saveBMP_roundtrip [OF s0(2) s0(3) len small] obtain s' bytes where r:
    "saveBMP ''out.bmp'' (fillPixel 0 0 s0) = Inr s'"
    "written s' = written (fillPixel 0 0 s0) @ [(''out.bmp'', bytes)]"
    "parseBMP bytes = (mainFieldWidth (fillPixel 0 0 s0), mainFieldHeight (fillPixel 0 0 s0),
       24, 0, mainTurtleImage (fillPixel 0 0 s0))"
    by blast
  from r(2) s0(6) have w: "written s' = [(''out.bmp'', bytes)]" by simp
  from r(3) have p: "parseBMP bytes =
       (2, 2, 24, 0, (replicate 4 white)[3 := \<lparr>red = 0, green = 255, blue = 0\<rparr>])"
    by (simp only: s0(4,5,7))
  from s0(1,2) len small r(1) w p show ?thesis by blast
qed

end
